theory Spec2Isabelle
  imports Complex_Main
begin

section \<open>JavaScript strings and values\<close>

text \<open>
  The analysis pipeline of \<^verbatim>\<open>server.js\<close> works on JavaScript strings. They are modelled
  as lists of 8-bit characters (the ISO-8859-1 range of code units); on that range the
  character classes of the regular expressions used by the source are the ones below.
\<close>

definition is_space :: "char \<Rightarrow> bool" where
  \<comment> \<open>the class \<^verbatim>\<open>\s\<close>, which is also what \<^verbatim>\<open>String.prototype.trim\<close> strips:
      TAB, LF, VT, FF, CR, SPACE, NBSP\<close>
  "is_space c \<longleftrightarrow>
     c \<in> set [CHR 0x09, CHR 0x0A, CHR 0x0B, CHR 0x0C, CHR 0x0D, CHR 0x20, CHR 0xA0]"

definition is_word :: "char \<Rightarrow> bool" where
  \<comment> \<open>the class \<^verbatim>\<open>\w\<close>\<close>
  "is_word c \<longleftrightarrow>
     c \<in> set (''abcdefghijklmnopqrstuvwxyz'' @ ''ABCDEFGHIJKLMNOPQRSTUVWXYZ'' @ ''0123456789_'')"

definition is_terminal :: "char \<Rightarrow> bool" where
  \<comment> \<open>the class \<^verbatim>\<open>[.!?]\<close>\<close>
  "is_terminal c \<longleftrightarrow> c \<in> set ''.!?''"

definition to_lower :: "char \<Rightarrow> char" where
  \<comment> \<open>\<^verbatim>\<open>toLowerCase\<close> on one code unit below 256\<close>
  "to_lower c =
     (let n = (of_char c :: nat)
      in if (65 \<le> n \<and> n \<le> 90) \<or> (192 \<le> n \<and> n \<le> 222 \<and> n \<noteq> 215)
         then char_of (n + 32) else c)"

definition toLowerCase :: "string \<Rightarrow> string" where
  "toLowerCase s = map to_lower s"

definition trim :: "string \<Rightarrow> string" where
  "trim s = rev (dropWhile is_space (rev (dropWhile is_space s)))"

text \<open>
  \<^verbatim>\<open>s.split(/[C]+/)\<close> for a character class \<^verbatim>\<open>C\<close>: the pieces between the maximal runs
  of separator characters; a separator at either end of the string leaves an empty piece
  there, and the empty string splits into one empty piece.
\<close>

function split_runs :: "(char \<Rightarrow> bool) \<Rightarrow> string \<Rightarrow> string list" where
  "split_runs P [] = [[]]"
| "split_runs P (c # cs) =
     (if P c then [] # split_runs P (dropWhile P cs)
      else (case split_runs P cs of
              [] \<Rightarrow> [[c]]
            | w # ws \<Rightarrow> (c # w) # ws))"
  by pat_completeness auto
termination
  by (relation "measure (\<lambda>(P, s). length s)")
     (auto simp: length_dropWhile_le less_Suc_eq_le)

fun join :: "string \<Rightarrow> string list \<Rightarrow> string" where
  "join sep [] = []"
| "join sep [x] = x"
| "join sep (x # y # ys) = x @ sep @ join sep (y # ys)"

definition digit :: "nat \<Rightarrow> char" where
  "digit d = ''0123456789'' ! d"

function show_nat :: "nat \<Rightarrow> string" where
  \<comment> \<open>the decimal numeral that a template string prints for a non-negative integer\<close>
  "show_nat n = (if n < 10 then [digit n] else show_nat (n div 10) @ [digit (n mod 10)])"
  by pat_completeness auto
termination
  by (relation "measure id") auto

definition js_slice_from :: "int \<Rightarrow> 'a list \<Rightarrow> 'a list" where
  \<comment> \<open>\<^verbatim>\<open>xs.slice(start)\<close>: a negative start counts from the end\<close>
  "js_slice_from start xs =
     (let n = int (length xs)
      in if start < 0 then drop (nat (max (n + start) 0)) xs
         else drop (nat (min start n)) xs)"

definition js_slice_to :: "nat \<Rightarrow> 'a list \<Rightarrow> 'a list" where
  \<comment> \<open>\<^verbatim>\<open>xs.slice(0, k)\<close>\<close>
  "js_slice_to k xs = take k xs"

fun str_includes :: "string \<Rightarrow> string \<Rightarrow> bool" where
  \<comment> \<open>\<^verbatim>\<open>s.includes(t)\<close>: \<open>t\<close> occurs in \<open>s\<close> as a contiguous substring\<close>
  "str_includes [] t = (t = [])"
| "str_includes (c # cs) t = (take (length t) (c # cs) = t \<or> str_includes cs t)"

function count_runs :: "(char \<Rightarrow> bool) \<Rightarrow> string \<Rightarrow> nat" where
  \<comment> \<open>\<^verbatim>\<open>(s.match(/[C]+/g) || []).length\<close>: the number of maximal runs of the class\<close>
  "count_runs P [] = 0"
| "count_runs P (c # cs) =
     (if P c then Suc (count_runs P (dropWhile P cs)) else count_runs P cs)"
  by pat_completeness auto
termination
  by (relation "measure (\<lambda>(P, s). length s)")
     (auto simp: length_dropWhile_le less_Suc_eq_le)

definition digits_value :: "string \<Rightarrow> int" where
  \<comment> \<open>the number that a string of decimal digits denotes\<close>
  "digits_value s = foldl (\<lambda>a c. 10 * a + (of_char c - 48)) 0 s"

definition is_array_index :: "string \<Rightarrow> bool" where
  \<comment> \<open>a property key that is an array index: the canonical decimal numeral of an
      integer from 0 to \<open>2\<^sup>3\<^sup>2 - 2\<close>\<close>
  "is_array_index k \<longleftrightarrow>
     k \<noteq> [] \<and> list_all (\<lambda>c. c \<in> set ''0123456789'') k
     \<and> (hd k \<noteq> CHR ''0'' \<or> k = ''0'') \<and> digits_value k \<le> 4294967294"

definition own_entries :: "(string \<times> 'v) list \<Rightarrow> (string \<times> 'v) list" where
  \<comment> \<open>\<^verbatim>\<open>Object.entries\<close> of an object whose properties are listed in creation order:
      array-index keys first, in ascending numeric order, then the other keys in
      creation order\<close>
  "own_entries ps =
     sort_key (\<lambda>p. digits_value (fst p)) (filter (\<lambda>p. is_array_index (fst p)) ps)
     @ filter (\<lambda>p. \<not> is_array_index (fst p)) ps"

text \<open>
  \<^verbatim>\<open>Array.prototype.sort(cmp)\<close>: a stable sort; an element \<open>x\<close> goes after \<open>y\<close> only when
  \<open>cmp x y > 0\<close>. For a consistent comparator the result is the unique stable sorted
  order; where the comparator is not consistent ECMAScript leaves the order to the
  implementation, and the insertion order below is one admissible choice.
\<close>

fun insort_cmp :: "('a \<Rightarrow> 'a \<Rightarrow> 'n::{zero,ord}) \<Rightarrow> 'a \<Rightarrow> 'a list \<Rightarrow> 'a list" where
  "insort_cmp cmp x [] = [x]"
| "insort_cmp cmp x (y # ys) =
     (if cmp x y \<le> 0 then x # y # ys else y # insort_cmp cmp x ys)"

definition js_sort :: "('a \<Rightarrow> 'a \<Rightarrow> 'n::{zero,ord}) \<Rightarrow> 'a list \<Rightarrow> 'a list" where
  "js_sort cmp xs = foldr (insort_cmp cmp) xs []"

text \<open>
  Values that JSON can hold, and \<^verbatim>\<open>undefined\<close>. An object lists its properties in
  creation order; the order in which they are enumerated is that of \<open>own_entries\<close>. An
  array holds its elements only: a named property set on an array is not kept.
\<close>

datatype jsval =
    JUndefined
  | JNull
  | JBool bool
  | JNum rat
  | JStr string
  | JArr "jsval list"
  | JObj "(string \<times> jsval) list"

datatype error = TypeError | SyntaxError | GenerativeUnavailable | RetrievalUnavailable


fun get_prop :: "jsval \<Rightarrow> string \<Rightarrow> error + jsval" where
  \<comment> \<open>\<^verbatim>\<open>v.k\<close> for a key that no built-in prototype defines, except \<^verbatim>\<open>length\<close>\<close>
  "get_prop JUndefined k = Inl TypeError"
| "get_prop JNull k = Inl TypeError"
| "get_prop (JObj kvs) k = Inr (case map_of kvs k of None \<Rightarrow> JUndefined | Some v \<Rightarrow> v)"
| "get_prop (JStr s) k = Inr (if k = ''length'' then JNum (of_nat (length s)) else JUndefined)"
| "get_prop (JArr xs) k = Inr (if k = ''length'' then JNum (of_nat (length xs)) else JUndefined)"
| "get_prop v k = Inr JUndefined"

fun obj_set :: "(string \<times> 'v) list \<Rightarrow> string \<Rightarrow> 'v \<Rightarrow> (string \<times> 'v) list" where
  \<comment> \<open>defining a property of an object: an existing key keeps its place\<close>
  "obj_set [] k v = [(k, v)]"
| "obj_set ((k', v') # kvs) k v =
     (if k' = k then (k, v) # kvs else (k', v') # obj_set kvs k v)"

fun spread :: "jsval \<Rightarrow> error + jsval list" where
  \<comment> \<open>\<^verbatim>\<open>[...v]\<close>: arrays and strings are iterable, nothing else that JSON can hold is\<close>
  "spread (JArr xs) = Inr xs"
| "spread (JStr s) = Inr (map (\<lambda>c. JStr [c]) s)"
| "spread v = Inl TypeError"

fun obj_spread :: "(string \<times> jsval) list \<Rightarrow> jsval \<Rightarrow> (string \<times> jsval) list" where
  \<comment> \<open>\<^verbatim>\<open>{...kvs, ...v}\<close>: the own enumerable properties of \<open>v\<close> are copied in order\<close>
  "obj_spread kvs (JObj ps) = foldl (\<lambda>acc (k, v). obj_set acc k v) kvs (own_entries ps)"
| "obj_spread kvs (JArr xs) =
     foldl (\<lambda>acc (i, v). obj_set acc (show_nat i) v) kvs (zip [0..<length xs] xs)"
| "obj_spread kvs (JStr s) =
     foldl (\<lambda>acc (i, c). obj_set acc (show_nat i) (JStr [c])) kvs (zip [0..<length s] s)"
| "obj_spread kvs v = kvs"

section \<open>Document chunker\<close>

record env =
  MAX_CHUNK_SIZE :: "int option"
  CHUNK_OVERLAP :: "int option"

text \<open>
  \<^verbatim>\<open>a || parseInt(e) || d\<close>: \<open>None\<close> stands for \<^verbatim>\<open>null\<close> in the argument and for
  \<^verbatim>\<open>NaN\<close> (variable unset or not a number) in the environment; \<open>0\<close> is falsy too.
\<close>

definition or_default :: "int option \<Rightarrow> int option \<Rightarrow> int \<Rightarrow> int" where
  "or_default a e d =
     (case a of
        Some n \<Rightarrow> if n \<noteq> 0 then n else (case e of Some m \<Rightarrow> if m \<noteq> 0 then m else d | None \<Rightarrow> d)
      | None \<Rightarrow> (case e of Some m \<Rightarrow> if m \<noteq> 0 then m else d | None \<Rightarrow> d))"

record chunk_state =
  chunks :: "string list"
  currentChunk :: string
  currentSize :: int

definition chunk_step :: "int \<Rightarrow> int \<Rightarrow> chunk_state \<Rightarrow> string \<Rightarrow> chunk_state" where
  \<comment> \<open>one iteration of the loop over the sentences\<close>
  "chunk_step maxSize overlapSize st sentence =
     (let sentenceWithPeriod = trim sentence @ ''.''
      in if currentSize st + int (length sentenceWithPeriod) > maxSize \<and> length (currentChunk st) > 0
         then
           (let words = split_runs is_space (currentChunk st);
                overlapWords = js_slice_from (- (overlapSize div 10)) words;
                cur = join '' '' overlapWords @ '' '' @ sentenceWithPeriod
            in \<lparr>chunks = chunks st @ [trim (currentChunk st)],
                currentChunk = cur, currentSize = int (length cur)\<rparr>)
         else
           (let cur = currentChunk st @ '' '' @ sentenceWithPeriod
            in st\<lparr>currentChunk := cur, currentSize := int (length cur)\<rparr>))"

definition chunkDocument :: "env \<Rightarrow> string \<Rightarrow> int option \<Rightarrow> int option \<Rightarrow> string list" where
  \<comment> \<open>the argument \<^verbatim>\<open>docName\<close> is never read\<close>
  "chunkDocument ev content chunkSize overlap =
     (let maxSize = or_default chunkSize (MAX_CHUNK_SIZE ev) 1000;
          overlapSize = or_default overlap (CHUNK_OVERLAP ev) 200;
          sentences = filter (\<lambda>s. length (trim s) > 0) (split_runs is_terminal content);
          st = foldl (chunk_step maxSize overlapSize)
                 \<lparr>chunks = [], currentChunk = [], currentSize = 0\<rparr> sentences;
          out = (if length (trim (currentChunk st)) > 0
                 then chunks st @ [trim (currentChunk st)] else chunks st)
      in filter (\<lambda>chunk. length chunk > 50) out)"

definition trimmed :: "string \<Rightarrow> bool" where
  "trimmed c \<longleftrightarrow> trim c = c"

section \<open>Keyword extractor\<close>

definition commonWords :: "string list" where
  "commonWords =
     [''the'', ''and'', ''or'', ''but'', ''in'', ''on'', ''at'', ''to'', ''for'', ''of'', ''with'', ''by'',
      ''a'', ''an'', ''is'', ''are'', ''was'', ''were'', ''be'', ''been'', ''being'', ''have'', ''has'',
      ''had'', ''do'', ''does'', ''did'', ''will'', ''would'', ''should'', ''could'', ''may'',
      ''might'', ''must'', ''shall'', ''this'', ''that'', ''these'', ''those'']"

definition keyword_tokens :: "string \<Rightarrow> string list" where
  \<comment> \<open>the array \<^verbatim>\<open>words\<close>: lower-cased, punctuation blanked, split at white space, filtered\<close>
  "keyword_tokens text =
     filter (\<lambda>word. length word > 3 \<and> word \<notin> set commonWords)
       (split_runs is_space
          (map (\<lambda>c. if \<not> is_word c \<and> \<not> is_space c then CHR '' '' else c) (toLowerCase text)))"

text \<open>
  \<^verbatim>\<open>wordFreq\<close> is an ordinary object, so it inherits from \<^verbatim>\<open>Object.prototype\<close>. Of the
  inherited names only \<^verbatim>\<open>constructor\<close> and \<^verbatim>\<open>__proto__\<close> are lower-case words. Reading
  \<^verbatim>\<open>wordFreq['constructor']\<close> first yields the function \<^verbatim>\<open>Object\<close>, which is truthy, and
  \<^verbatim>\<open>+ 1\<close> then concatenates strings; assigning a string to \<^verbatim>\<open>__proto__\<close> is ignored by
  its setter and creates no property. A counter is therefore a number or a string.
\<close>

datatype counter = Count nat | Concat string

definition bump :: "(string \<times> counter) list \<Rightarrow> string \<Rightarrow> (string \<times> counter) list" where
  \<comment> \<open>\<^verbatim>\<open>wordFreq[word] = (wordFreq[word] || 0) + 1\<close>\<close>
  "bump wordFreq word =
     (if word = ''__proto__'' then wordFreq
      else case map_of wordFreq word of
             Some (Count n) \<Rightarrow> obj_set wordFreq word (Count (n + 1))
           | Some (Concat s) \<Rightarrow> obj_set wordFreq word (Concat (s @ ''1''))
           | None \<Rightarrow>
               if word = ''constructor''
               then obj_set wordFreq word (Concat ''function Object() { [native code] }1'')
               else obj_set wordFreq word (Count 1))"

fun by_count_desc :: "string \<times> counter \<Rightarrow> string \<times> counter \<Rightarrow> int" where
  \<comment> \<open>\<^verbatim>\<open>([,a], [,b]) => b - a\<close>; with a string operand the difference is \<^verbatim>\<open>NaN\<close>, which
      the sort reads as \<open>0\<close>\<close>
  "by_count_desc (k, Count a) (k', Count b) = int b - int a"
| "by_count_desc p q = 0"

definition extractKeywords :: "string \<Rightarrow> string list" where
  "extractKeywords text =
     (let words = keyword_tokens text;
          wordFreq = foldl bump [] words
      in map fst (js_slice_to 50 (js_sort by_count_desc (own_entries wordFreq))))"

section \<open>Rule-based analyzer\<close>

record policy =
  policy_id :: string
  name :: string
  content :: string
  policy_keywords :: "string list"

definition next_is_word :: "string \<Rightarrow> bool" where
  "next_is_word s = (case s of [] \<Rightarrow> False | d # _ \<Rightarrow> is_word d)"

text \<open>
  The number of matches of \<^verbatim>\<open>/\bw\b/gi\<close> for a word \<open>w\<close> of lower-case letters. \<open>prev\<close>
  tells whether the character before the current position is a word character; a match
  needs a word boundary on both sides, and the scan resumes behind it.
\<close>

function count_word :: "string \<Rightarrow> bool \<Rightarrow> string \<Rightarrow> nat" where
  "count_word w prev [] = 0"
| "count_word w prev (c # cs) =
     (if \<not> prev \<and> toLowerCase (take (length w) (c # cs)) = w
           \<and> \<not> next_is_word (drop (length w) (c # cs))
      then Suc (count_word w True (drop (length w - 1) cs))
      else count_word w (is_word c) cs)"
  by pat_completeness auto
termination
  by (relation "measure (\<lambda>(w, prev, s). length s)") auto

definition is_dot :: "char \<Rightarrow> bool" where
  "is_dot c \<longleftrightarrow> c = CHR ''.''"

function count_dot_runs :: "string \<Rightarrow> nat" where
  \<comment> \<open>the number of matches of \<^verbatim>\<open>/[.]{2,}/g\<close>: maximal runs of two or more periods\<close>
  "count_dot_runs [] = 0"
| "count_dot_runs (c # cs) =
     (if is_dot c
      then (if takeWhile is_dot cs \<noteq> [] then Suc (count_dot_runs (dropWhile is_dot cs))
            else count_dot_runs (dropWhile is_dot cs))
      else count_dot_runs cs)"
  by pat_completeness auto
termination
  by (relation "measure length") (auto simp: length_dropWhile_le less_Suc_eq_le)

definition test_ci :: "string \<Rightarrow> string \<Rightarrow> bool" where
  \<comment> \<open>\<^verbatim>\<open>/p/i.test(text)\<close> for a pattern \<open>p\<close> of lower-case letters\<close>
  "test_ci p text = str_includes (toLowerCase text) p"

record language_rule =
  pattern :: "string \<Rightarrow> nat"
  issue :: string
  suggestion :: string
  severity :: string
  penalty :: int

definition languageRules :: "language_rule list" where
  "languageRules =
     [\<lparr>pattern = count_word ''shall'' False,
       issue = ''Use of 'shall' - ambiguous legal term'',
       suggestion = ''Replace 'shall' with 'will', 'must', or 'agrees to' for clarity'',
       severity = ''low'', penalty = 2\<rparr>,
      \<lparr>pattern = count_word ''hereby'' False,
       issue = ''Unnecessary use of 'hereby'' @ [CHR 0x27],
       suggestion = ''Remove 'hereby' for cleaner, modern language'',
       severity = ''low'', penalty = 1\<rparr>,
      \<lparr>pattern = count_dot_runs,
       issue = ''Multiple consecutive periods'',
       suggestion = ''Use single periods for proper punctuation'',
       severity = ''medium'', penalty = 2\<rparr>]"

record essential_section =
  section_name :: string
  patterns :: "string list"
  required :: bool

definition essentialSections :: "essential_section list" where
  "essentialSections =
     [\<lparr>section_name = ''Parties'', patterns = [''parties'', ''party''], required = True\<rparr>,
      \<lparr>section_name = ''Term/Duration'', patterns = [''term'', ''duration'', ''expir''], required = True\<rparr>,
      \<lparr>section_name = ''Termination'', patterns = [''terminat'', ''end'', ''cancel''], required = True\<rparr>]"

definition mk_issue :: "string \<Rightarrow> string \<Rightarrow> string \<Rightarrow> string \<Rightarrow> jsval" where
  "mk_issue ty sev title descr =
     JObj [(''type'', JStr ty), (''severity'', JStr sev), (''title'', JStr title),
           (''description'', JStr descr)]"

definition mk_suggestion :: "string \<Rightarrow> string \<Rightarrow> string \<Rightarrow> string \<Rightarrow> jsval" where
  "mk_suggestion ty prio title descr =
     JObj [(''type'', JStr ty), (''priority'', JStr prio), (''title'', JStr title),
           (''description'', JStr descr)]"

record basic_state =
  issues :: "jsval list"
  suggestions :: "jsval list"
  complianceScore :: int

definition language_step :: "string \<Rightarrow> basic_state \<Rightarrow> language_rule \<Rightarrow> basic_state" where
  "language_step documentText st rule =
     (let matches = pattern rule documentText
      in if matches > 0
         then \<lparr>issues = issues st @
                  [mk_issue ''Language Issue'' (severity rule) (issue rule)
                     (''Found '' @ show_nat matches @ '' instance(s)'')],
               suggestions = suggestions st @
                  [mk_suggestion ''Language Improvement''
                     (if severity rule = ''high'' then ''high'' else ''medium'') (suggestion rule)
                     (''Apply to '' @ show_nat matches @ '' instance(s)'')],
               complianceScore = complianceScore st - min (int matches * penalty rule) 20\<rparr>
         else st)"

definition section_step :: "string \<Rightarrow> basic_state \<Rightarrow> essential_section \<Rightarrow> basic_state" where
  "section_step documentText st sec =
     (let hasSection = list_ex (\<lambda>p. test_ci p documentText) (patterns sec)
      in if \<not> hasSection \<and> required sec
         then st\<lparr>issues := issues st @
                  [mk_issue ''Structure Issue'' ''high''
                     (''Missing '' @ section_name sec @ '' section'')
                     (''Contract should include '' @ toLowerCase (section_name sec) @ '' information'')],
                complianceScore := complianceScore st - 10\<rparr>
         else st)"

definition missingKeywords :: "string \<Rightarrow> policy \<Rightarrow> string list" where
  "missingKeywords documentText pol =
     (let docKeywords = extractKeywords documentText
      in filter (\<lambda>keyword. \<not> list_ex (\<lambda>docKeyword.
                   str_includes docKeyword keyword \<or> str_includes keyword docKeyword) docKeywords)
           (js_slice_to 10 (policy_keywords pol)))"

definition policy_step :: "string \<Rightarrow> basic_state \<Rightarrow> policy \<Rightarrow> basic_state" where
  "policy_step documentText st pol =
     (let missing = missingKeywords documentText pol
      in if length missing > 0
         then \<lparr>issues = issues st @
                  [mk_issue ''Policy Compliance'' ''high''
                     (''Missing key terms from '' @ name pol)
                     ''Document may not comply with policy requirements''],
               suggestions = suggestions st @
                  [mk_suggestion ''Policy Alignment'' ''high''
                     (''Add required terms from '' @ name pol)
                     (''Consider including: '' @ join '', '' (js_slice_to 3 missing))],
               complianceScore = complianceScore st - min (int (length missing) * 3) 15\<rparr>
         else st)"

definition basic_rules :: "string \<Rightarrow> policy list \<Rightarrow> basic_state" where
  \<comment> \<open>the three loops of \<^verbatim>\<open>performBasicAnalysis\<close>, in order\<close>
  "basic_rules documentText policies =
     foldl (policy_step documentText)
       (foldl (section_step documentText)
          (foldl (language_step documentText)
             \<lparr>issues = [], suggestions = [], complianceScore = 100\<rparr> languageRules)
          essentialSections)
       policies"

function paragraph_breaks :: "string \<Rightarrow> nat" where
  \<comment> \<open>the number of matches of \<^verbatim>\<open>/\n\s*\n/\<close> met by \<^verbatim>\<open>split\<close>: a line feed followed, within
      the same run of white space, by another one; no further match starts in that run\<close>
  "paragraph_breaks [] = 0"
| "paragraph_breaks (c # cs) =
     (if c = CHR 0x0A \<and> CHR 0x0A \<in> set (takeWhile is_space cs)
      then Suc (paragraph_breaks (dropWhile is_space cs))
      else paragraph_breaks cs)"
  by pat_completeness auto
termination
  by (relation "measure length") (auto simp: length_dropWhile_le less_Suc_eq_le)

definition text_stats :: "string \<Rightarrow> bool \<Rightarrow> bool \<Rightarrow> jsval" where
  "text_stats documentText ai rag =
     JObj [(''wordCount'', JNum (of_nat (length (split_runs is_space documentText)))),
           (''characterCount'', JNum (of_nat (length documentText))),
           (''sentenceCount'', JNum (of_nat (count_runs is_terminal documentText))),
           (''paragraphCount'', JNum (of_nat (Suc (paragraph_breaks documentText)))),
           (''aiAnalyzed'', JBool ai),
           (''ragUsed'', JBool rag)]"

definition risk_of :: "int \<Rightarrow> string" where
  "risk_of score = (if score \<ge> 80 then ''Low'' else if score \<ge> 60 then ''Medium'' else ''High'')"

text \<open>
  All penalties are integers, so \<^verbatim>\<open>Math.round\<close> leaves the score as it is. The risk level
  is read from the score before it is clamped. The \<^verbatim>\<open>options\<close> argument is never read.
\<close>

definition performBasicAnalysis :: "string \<Rightarrow> policy list \<Rightarrow> jsval" where
  "performBasicAnalysis documentText policies =
     (let st = basic_rules documentText policies
      in JObj [(''complianceScore'', JNum (of_int (max (complianceScore st) 0))),
               (''issues'', JArr (issues st)),
               (''suggestions'', JArr (js_slice_to 20 (suggestions st))),
               (''riskLevel'', JStr (risk_of (complianceScore st))),
               (''policiesAnalyzed'', JNum (of_nat (length policies))),
               (''analysis'', text_stats documentText False False)])"

section \<open>Retrieval-augmented tier\<close>

text \<open>
  The vector store answers a query (a text and the number of results wanted) with aligned
  arrays of documents, metadata and distances, read here as one list of snippets, or it
  raises.
\<close>

record snippet =
  document :: string
  policy_name :: string
  distance :: rat

type_synonym collection = "string \<Rightarrow> nat \<Rightarrow> error + snippet list"

fun query_chunks :: "collection \<Rightarrow> nat \<Rightarrow> string list \<Rightarrow> snippet list \<Rightarrow> error + snippet list" where
  \<comment> \<open>the loop over the chunks; a query that raises ends it\<close>
  "query_chunks policyCollection nResults [] allResults = Inr allResults"
| "query_chunks policyCollection nResults (chunk # rest) allResults =
     (case policyCollection chunk nResults of
        Inl e \<Rightarrow> Inl e
      | Inr results \<Rightarrow> query_chunks policyCollection nResults rest (allResults @ results))"

definition retrieveRelevantPolicies :: "env \<Rightarrow> collection \<Rightarrow> string \<Rightarrow> nat \<Rightarrow> snippet list" where
  \<comment> \<open>the \<^verbatim>\<open>catch\<close> of the function turns every failure into the empty list;
      \<^verbatim>\<open>Math.ceil(topK / 3)\<close> is \<open>(topK + 2) div 3\<close>\<close>
  "retrieveRelevantPolicies ev policyCollection documentText topK =
     (let docChunks = chunkDocument ev documentText None None
      in case query_chunks policyCollection ((topK + 2) div 3) (js_slice_to 3 docChunks) [] of
           Inl e \<Rightarrow> []
         | Inr allResults \<Rightarrow>
             js_slice_to topK (js_sort (\<lambda>a b. distance a - distance b) allResults))"

text \<open>
  The generative service, seen from the analyzers: the outcome of
  \<^verbatim>\<open>anthropic.messages.create\<close> followed by \<^verbatim>\<open>JSON.parse(response.content[0].text)\<close> for a
  prompt. It is the parsed value, or the exception of either step:
  \<open>GenerativeUnavailable\<close> from the service, \<open>SyntaxError\<close> for a text that is not JSON.
\<close>

type_synonym generative = "string \<Rightarrow> error + jsval"

definition lines :: "string list \<Rightarrow> string" where
  "lines ls = join [CHR 0x0A] ls"

definition schema_instruction :: "string list" where
  \<open>schema_instruction =
     [''Provide analysis in JSON format:'',
      ''{'',
      ''  "complianceScore": <number 0-100>,'',
      ''  "riskLevel": "<Low/Medium/High>",'',
      ''  "issues": ['',
      ''    {'',
      ''      "type": "<string>",'',
      ''      "severity": "<low/medium/high>",'',
      ''      "title": "<string>",'',
      ''      "description": "<string>"'',
      ''    }'',
      ''  ],'',
      ''  "suggestions": ['',
      ''    {'',
      ''      "type": "<string>",'',
      ''      "priority": "<low/medium/high>",'',
      ''      "title": "<string>",'',
      ''      "description": "<string>"'',
      ''    }'',
      ''  ]'',
      ''}'']\<close>

definition rag_prompt :: "snippet list \<Rightarrow> string \<Rightarrow> string" where
  "rag_prompt relevantPolicies documentText =
     (let policyContext = join [CHR 0x0A, CHR 0x0A]
            (map (\<lambda>p. ''Policy: '' @ policy_name p @ [CHR 0x0A] @ ''Section: '' @ document p)
               relevantPolicies)
      in lines ([''You are a legal compliance expert. Analyze this contract for policy compliance and provide improvement suggestions.'',
                 '''',
                 ''POLICY CONTEXT:'',
                 policyContext,
                 '''',
                 ''DOCUMENT TO ANALYZE:'',
                 documentText,
                 ''''] @ schema_instruction))"

definition degraded_result :: jsval where
  "degraded_result =
     JObj [(''complianceScore'', JNum 60),
           (''riskLevel'', JStr ''Medium''),
           (''issues'', JArr [mk_issue ''Analysis Error'' ''medium'' ''AI analysis unavailable''
                                ''Using basic analysis only'']),
           (''suggestions'', JArr [mk_suggestion ''General'' ''medium'' ''Manual review recommended''
                                     ''Please have document reviewed by legal counsel''])]"

definition analyzeWithClaude :: "generative \<Rightarrow> string \<Rightarrow> snippet list \<Rightarrow> jsval" where
  "analyzeWithClaude anthropic documentText relevantPolicies =
     (case anthropic (rag_prompt relevantPolicies documentText) of
        Inr parsed \<Rightarrow> parsed
      | Inl e \<Rightarrow> degraded_result)"

definition and_then :: "error + 'a \<Rightarrow> ('a \<Rightarrow> error + 'b) \<Rightarrow> error + 'b" where
  "and_then m f = (case m of Inl e \<Rightarrow> Inl e | Inr x \<Rightarrow> f x)"

definition rag_merge :: "string \<Rightarrow> snippet list \<Rightarrow> jsval \<Rightarrow> jsval \<Rightarrow> error + jsval" where
  \<comment> \<open>the object literal returned by \<^verbatim>\<open>performRAGAnalysis\<close>, evaluated field by field\<close>
  "rag_merge documentText relevantPolicies claudeAnalysis basicAnalysis =
     and_then (get_prop claudeAnalysis ''complianceScore'') (\<lambda>score.
     and_then (and_then (get_prop claudeAnalysis ''issues'') spread) (\<lambda>claudeIssues.
     and_then (and_then (get_prop basicAnalysis ''issues'') spread) (\<lambda>basicIssues.
     and_then (and_then (get_prop claudeAnalysis ''suggestions'') spread) (\<lambda>claudeSuggestions.
     and_then (and_then (get_prop basicAnalysis ''suggestions'') spread) (\<lambda>basicSuggestions.
     and_then (get_prop claudeAnalysis ''riskLevel'') (\<lambda>risk.
     Inr (JObj [(''complianceScore'', score),
                (''issues'', JArr (claudeIssues @ basicIssues)),
                (''suggestions'', JArr (js_slice_to 25 (claudeSuggestions @ basicSuggestions))),
                (''riskLevel'', risk),
                (''policiesAnalyzed'', JNum (of_nat (length relevantPolicies))),
                (''analysis'', text_stats documentText True True)])))))))"

definition performRAGAnalysis :: "env \<Rightarrow> collection \<Rightarrow> generative \<Rightarrow> string \<Rightarrow> error + jsval" where
  \<comment> \<open>the \<^verbatim>\<open>catch\<close> of the function logs and rethrows\<close>
  "performRAGAnalysis ev policyCollection anthropic documentText =
     (let relevantPolicies = retrieveRelevantPolicies ev policyCollection documentText 10;
          claudeAnalysis = analyzeWithClaude anthropic documentText relevantPolicies;
          basicAnalysis = performBasicAnalysis documentText []
      in rag_merge documentText relevantPolicies claudeAnalysis basicAnalysis)"

section \<open>Generative-only tier\<close>

definition ai_prompt :: "policy list \<Rightarrow> string \<Rightarrow> string" where
  "ai_prompt policies documentText =
     (let policyContext = join [CHR 0x0A]
            (map (\<lambda>p. ''Policy: '' @ name p @ [CHR 0x0A] @ ''Keywords: ''
                        @ join '', '' (policy_keywords p)) policies)
      in lines ([''You are a legal compliance expert. Analyze this contract and provide improvement suggestions.'',
                 '''',
                 ''AVAILABLE POLICIES:'',
                 policyContext,
                 '''',
                 ''DOCUMENT TO ANALYZE:'',
                 documentText,
                 ''''] @ schema_instruction))"

fun set_prop :: "jsval \<Rightarrow> string \<Rightarrow> jsval \<Rightarrow> error + jsval" where
  \<comment> \<open>\<^verbatim>\<open>v.k = x\<close> outside strict mode, giving \<open>v\<close> afterwards: it raises on \<^verbatim>\<open>null\<close> and is
      ignored on a primitive value; on an array it adds a property that is no element, which
      the array of the model does not keep\<close>
  "set_prop JUndefined k x = Inl TypeError"
| "set_prop JNull k x = Inl TypeError"
| "set_prop (JObj kvs) k x = Inr (JObj (obj_set kvs k x))"
| "set_prop v k x = Inr v"

definition performAIAnalysis :: "generative \<Rightarrow> string \<Rightarrow> policy list \<Rightarrow> error + jsval" where
  \<comment> \<open>the \<^verbatim>\<open>catch\<close> of the function logs and rethrows\<close>
  "performAIAnalysis anthropic documentText policies =
     and_then (anthropic (ai_prompt policies documentText)) (\<lambda>result.
       set_prop result ''analysis'' (JObj [(''aiAnalyzed'', JBool True), (''ragUsed'', JBool False)]))"

section \<open>Degradation controller\<close>

text \<open>
  \<open>None\<close> stands for a capability that is \<^verbatim>\<open>null\<close>: no collection, no API client.
\<close>

definition performEnhancedAnalysis ::
  "env \<Rightarrow> collection option \<Rightarrow> generative option \<Rightarrow> string \<Rightarrow> policy list \<Rightarrow> error + jsval" where
  "performEnhancedAnalysis ev policyCollection anthropic documentText policies =
     (case (policyCollection, anthropic) of
        (Some c, Some a) \<Rightarrow>
          (case performRAGAnalysis ev c a documentText of
             Inr result \<Rightarrow> Inr result
           | Inl e \<Rightarrow> Inr (performBasicAnalysis documentText policies))
      | (None, Some a) \<Rightarrow>
          (case performAIAnalysis a documentText policies of
             Inr result \<Rightarrow> Inr result
           | Inl e \<Rightarrow> Inr (performBasicAnalysis documentText policies))
      | (_, None) \<Rightarrow> Inr (performBasicAnalysis documentText policies))"

section \<open>Result store\<close>

definition store_result :: "'r list \<Rightarrow> 'r \<Rightarrow> 'r list" where
  \<comment> \<open>\<^verbatim>\<open>analysisResults.push(result)\<close>, then the cut to the last 100\<close>
  "store_result analysisResults r =
     (let rs = analysisResults @ [r]
      in if length rs > 100 then js_slice_from (- 100) rs else rs)"

datatype response = Status200 jsval | Status400 string | Status500 string

text \<open>
  The handler of \<^verbatim>\<open>POST /api/analyze\<close>: the request carries the document text, the
  identifier and the date are drawn by the handler. It answers and leaves the new list
  of stored results.
\<close>

definition analyze ::
  "env \<Rightarrow> collection option \<Rightarrow> generative option \<Rightarrow> policy list \<Rightarrow> jsval list
     \<Rightarrow> string \<Rightarrow> string \<Rightarrow> string \<Rightarrow> response \<times> jsval list" where
  "analyze ev policyCollection anthropic policies analysisResults new_id now documentText =
     (if documentText = [] then (Status400 ''Invalid input'', analysisResults)
      else if length policies = 0
      then (Status400 ''No policies uploaded. Please upload policy documents first.'', analysisResults)
      else case performEnhancedAnalysis ev policyCollection anthropic documentText policies of
             Inl e \<Rightarrow> (Status500 ''Error analyzing document'', analysisResults)
           | Inr analysisResult \<Rightarrow>
               (let result = JObj (obj_spread
                      [(''id'', JStr new_id),
                       (''analysisDate'', JStr now),
                       (''documentLength'', JNum (of_nat (length documentText))),
                       (''wordCount'', JNum (of_nat (length (split_runs is_space documentText))))]
                      analysisResult)
                in (Status200 (JObj [(''success'', JBool True), (''result'', result)]),
                    store_result analysisResults result)))"






section \<open>Properties of reports\<close>

text \<open>
  The invariant of the data model: the score is an integer from 0 to 100 and the risk
  level is the threshold function of the score.
\<close>

definition score_risk_ok :: "jsval \<Rightarrow> bool" where
  "score_risk_ok report \<longleftrightarrow>
     (case get_prop report ''complianceScore'' of
        Inr (JNum q) \<Rightarrow>
          of_int \<lfloor>q\<rfloor> = q \<and> 0 \<le> q \<and> q \<le> 100
          \<and> get_prop report ''riskLevel'' = Inr (JStr (risk_of \<lfloor>q\<rfloor>))
      | _ \<Rightarrow> False)"

text \<open>
  A complete analysis result is an object with the fields that the rule-based and the
  RAG tier build: a numeric score, a risk level, a list of issues, a list of suggestions,
  the number of policies, and the statistics record with its four counts and its two
  tier flags.
\<close>

fun is_number :: "error + jsval \<Rightarrow> bool" where
  "is_number (Inr (JNum q)) = True"
| "is_number r = False"

fun is_string :: "error + jsval \<Rightarrow> bool" where
  "is_string (Inr (JStr s)) = True"
| "is_string r = False"

fun is_array :: "error + jsval \<Rightarrow> bool" where
  "is_array (Inr (JArr xs)) = True"
| "is_array r = False"

fun is_boolean :: "error + jsval \<Rightarrow> bool" where
  "is_boolean (Inr (JBool b)) = True"
| "is_boolean r = False"

definition complete_stats :: "jsval \<Rightarrow> bool" where
  "complete_stats stats \<longleftrightarrow>
     list_all (\<lambda>k. is_number (get_prop stats k))
       [''wordCount'', ''characterCount'', ''sentenceCount'', ''paragraphCount'']
     \<and> list_all (\<lambda>k. is_boolean (get_prop stats k)) [''aiAnalyzed'', ''ragUsed'']"

definition complete_report :: "jsval \<Rightarrow> bool" where
  "complete_report report \<longleftrightarrow>
     is_number (get_prop report ''complianceScore'')
     \<and> is_string (get_prop report ''riskLevel'')
     \<and> is_array (get_prop report ''issues'')
     \<and> is_array (get_prop report ''suggestions'')
     \<and> is_number (get_prop report ''policiesAnalyzed'')
     \<and> (case get_prop report ''analysis'' of
          Inr stats \<Rightarrow> complete_stats stats
        | Inl e \<Rightarrow> False)"

definition tier_flags :: jsval where
  \<comment> \<open>the record that \<^verbatim>\<open>performAIAnalysis\<close> stores as \<^verbatim>\<open>result.analysis\<close>\<close>
  "tier_flags = JObj [(''aiAnalyzed'', JBool True), (''ragUsed'', JBool False)]"

section \<open>Order of the keywords\<close>

text \<open>
  \<open>ranked stream order result\<close>: the result is in descending order of the frequencies
  in the token stream, and tokens of equal frequency stand in the order of their first
  positions in \<open>order\<close>. With the token stream itself for \<open>order\<close>, ties are broken by
  first occurrence. \<open>key_order\<close> is the order in which an object lists the keys that the
  stream creates: array indices first, in ascending numeric order, then the other keys
  by first occurrence.
\<close>

fun index_of :: "'a list \<Rightarrow> 'a \<Rightarrow> nat" where
  "index_of [] x = 0"
| "index_of (y # ys) x = (if x = y then 0 else Suc (index_of ys x))"

definition ranked :: "string list \<Rightarrow> string list \<Rightarrow> string list \<Rightarrow> bool" where
  "ranked stream order result \<longleftrightarrow>
     sorted_wrt (\<lambda>a b. count_list stream a > count_list stream b
                  \<or> (count_list stream a = count_list stream b
                       \<and> index_of order a < index_of order b)) result"

definition first_seen :: "'a list \<Rightarrow> 'a list" where
  "first_seen xs = rev (remdups (rev xs))"

definition key_order :: "string list \<Rightarrow> string list" where
  "key_order stream =
     (let ks = first_seen (filter (\<lambda>w. w \<noteq> ''__proto__'') stream)
      in sort_key digits_value (filter is_array_index ks) @ filter (\<lambda>k. \<not> is_array_index k) ks)"

section \<open>Sample inputs\<close>

definition env0 :: env where
  "env0 = \<lparr>MAX_CHUNK_SIZE = None, CHUNK_OVERLAP = None\<rparr>"

definition two_sentences :: string where
  "two_sentences = ''The parties shall pay the agreed price in full and on time. The term shall run for two years from the day of signing.''"


definition odd_reply :: jsval where
  "odd_reply = JObj [(''complianceScore'', JNum 150), (''riskLevel'', JStr ''Low''),
                     (''issues'', JArr []), (''suggestions'', JArr [])]"

definition odd_report :: jsval where
  "odd_report =
     JObj [(''complianceScore'', JNum 150),
           (''issues'', JArr (issues (basic_rules two_sentences []))),
           (''suggestions'', JArr (take 20 (suggestions (basic_rules two_sentences [])))),
           (''riskLevel'', JStr ''Low''),
           (''policiesAnalyzed'', JNum 0),
           (''analysis'', text_stats two_sentences True True)]"

definition one_policy :: policy where
  "one_policy = \<lparr>policy_id = ''p1'', name = ''Policy'', content = ''Indemnity clause.'',
                  policy_keywords = [''indemnity'', ''clause'']\<rparr>"

section \<open>Properties of the chunker\<close>

lemma dropWhile_fix: "xs = [] \<or> \<not> P (hd xs) \<Longrightarrow> dropWhile P xs = xs"
  by (cases xs) auto

lemma dropWhile_head: "dropWhile P xs = [] \<or> \<not> P (hd (dropWhile P xs))"
  by (metis hd_dropWhile)

lemma trim_trim: "trim (trim s) = trim s"
proof -
  define u where "u = dropWhile is_space s"
  define v where "v = dropWhile is_space (rev u)"
  have t: "trim s = rev v"
    by (simp add: trim_def u_def v_def)
  have u: "u = [] \<or> \<not> is_space (hd u)"
    unfolding u_def by (rule dropWhile_head)
  have v: "v = [] \<or> \<not> is_space (hd v)"
    unfolding v_def by (rule dropWhile_head)
  have "rev u = takeWhile is_space (rev u) @ v"
    by (simp add: v_def)
  then have "u = rev v @ rev (takeWhile is_space (rev u))"
    by (metis rev_append rev_rev_ident)
  then have "rev v = [] \<or> (u \<noteq> [] \<and> hd (rev v) = hd u)"
    by (metis hd_append2 append_is_Nil_conv)
  with u have "rev v = [] \<or> \<not> is_space (hd (rev v))"
    by auto
  then have "dropWhile is_space (rev v) = rev v"
    by (rule dropWhile_fix)
  moreover have "dropWhile is_space v = v"
    using v by (rule dropWhile_fix)
  ultimately have "trim (rev v) = rev v"
    by (simp add: trim_def)
  then show ?thesis
    by (simp add: t)
qed

lemma chunk_step_trimmed:
  "list_all trimmed (chunks st) \<Longrightarrow> list_all trimmed (chunks (chunk_step m ov st s))"
  by (simp add: chunk_step_def Let_def trimmed_def trim_trim)

lemma chunk_loop_trimmed:
  "list_all trimmed (chunks st) \<Longrightarrow> list_all trimmed (chunks (foldl (chunk_step m ov) st ss))"
  by (induction ss arbitrary: st) (simp_all add: chunk_step_trimmed)

lemma chunkDocument_trimmed: "list_all trimmed (chunkDocument ev doc chunkSize overlap)"
proof -
  define st where "st = foldl (chunk_step (or_default chunkSize (MAX_CHUNK_SIZE ev) 1000)
      (or_default overlap (CHUNK_OVERLAP ev) 200))
      \<lparr>chunks = [], currentChunk = [], currentSize = 0\<rparr>
      (filter (\<lambda>s. length (trim s) > 0) (split_runs is_terminal doc))"
  have "list_all trimmed (chunks st)"
    unfolding st_def by (rule chunk_loop_trimmed) simp
  then have "list_all trimmed (chunks st @ [trim (currentChunk st)])"
    by (simp add: trimmed_def trim_trim)
  with \<open>list_all trimmed (chunks st)\<close> show ?thesis
    unfolding chunkDocument_def Let_def st_def [symmetric]
    by (auto simp: list_all_iff)
qed

text \<open>
  C7: whatever the text, the size arguments and the environment, every chunk that
  \<^verbatim>\<open>chunkDocument\<close> returns is longer than 50 characters after trimming.
\<close>

theorem chunkDocument_trimmed_length:
  "\<forall>c \<in> set (chunkDocument ev doc chunkSize overlap). length (trim c) > 50"
proof
  fix c assume c: "c \<in> set (chunkDocument ev doc chunkSize overlap)"
  then have "trim c = c"
    using chunkDocument_trimmed [of ev doc chunkSize overlap]
    by (simp add: list_all_iff trimmed_def)
  moreover from c have "length c > 50"
    by (simp add: chunkDocument_def Let_def split: if_splits)
  ultimately show "length (trim c) > 50" by simp
qed

theorem chunkDocument_trimmed_length_witness:
  "chunkDocument \<lparr>MAX_CHUNK_SIZE = Some 80, CHUNK_OVERLAP = Some 20\<rparr>
     ''The parties shall pay the agreed price in full and on time. The term shall run for two years from the day of signing.''
     None None
   = [''The parties shall pay the agreed price in full and on time.'',
      ''on time. The term shall run for two years from the day of signing.'']
   \<and> 50 < length (trim ''The parties shall pay the agreed price in full and on time.'')
   \<and> 50 < length (trim ''on time. The term shall run for two years from the day of signing.'')"
proof -
  have eq: "chunkDocument \<lparr>MAX_CHUNK_SIZE = Some 80, CHUNK_OVERLAP = Some 20\<rparr>
     ''The parties shall pay the agreed price in full and on time. The term shall run for two years from the day of signing.''
     None None
   = [''The parties shall pay the agreed price in full and on time.'',
      ''on time. The term shall run for two years from the day of signing.'']"
    by code_simp
  show ?thesis
    using chunkDocument_trimmed_length [of "\<lparr>MAX_CHUNK_SIZE = Some 80, CHUNK_OVERLAP = Some 20\<rparr>"
      "''The parties shall pay the agreed price in full and on time. The term shall run for two years from the day of signing.''"
      None None]
    unfolding eq by simp
qed

section \<open>Properties of the result store\<close>








section \<open>Properties of the rule-based analyzer\<close>

lemma language_issues:
  "length (issues (foldl (language_step d) st rs))
     = length (issues st) + length (filter (\<lambda>r. pattern r d > 0) rs)"
  by (induction rs arbitrary: st) (simp_all add: language_step_def Let_def)

lemma section_issues:
  "length (issues (foldl (section_step d) st ss))
     = length (issues st)
       + length (filter (\<lambda>s. \<not> list_ex (\<lambda>p. test_ci p d) (patterns s) \<and> required s) ss)"
  by (induction ss arbitrary: st) (simp_all add: section_step_def Let_def)

lemma policy_issues:
  "length (issues (foldl (policy_step d) st ps))
     = length (issues st) + length (filter (\<lambda>p. missingKeywords d p \<noteq> []) ps)"
  by (induction ps arbitrary: st) (simp_all add: policy_step_def Let_def)

lemma basic_issue_count:
  "length (issues (basic_rules d ps))
     = length (filter (\<lambda>r. pattern r d > 0) languageRules)
       + length (filter (\<lambda>s. \<not> list_ex (\<lambda>p. test_ci p d) (patterns s) \<and> required s) essentialSections)
       + length (filter (\<lambda>p. missingKeywords d p \<noteq> []) ps)"
  by (simp add: basic_rules_def policy_issues section_issues language_issues)

lemma language_score:
  "list_all (\<lambda>r. 0 \<le> penalty r) rs \<Longrightarrow>
   complianceScore (foldl (language_step d) st rs) \<le> complianceScore st"
proof (induction rs arbitrary: st)
  case Nil
  show ?case by simp
next
  case (Cons r rs)
  have "complianceScore (language_step d st r) \<le> complianceScore st"
    using Cons.prems by (simp add: language_step_def Let_def)
  moreover have "complianceScore (foldl (language_step d) (language_step d st r) rs)
      \<le> complianceScore (language_step d st r)"
    using Cons.prems by (intro Cons.IH) simp
  ultimately show ?case by simp
qed

lemma section_score:
  "complianceScore (foldl (section_step d) st ss) \<le> complianceScore st"
proof (induction ss arbitrary: st)
  case Nil
  show ?case by simp
next
  case (Cons s ss)
  have "complianceScore (section_step d st s) \<le> complianceScore st"
    by (simp add: section_step_def Let_def)
  with Cons.IH [of "section_step d st s"] show ?case by simp
qed

lemma policy_score:
  "complianceScore (foldl (policy_step d) st ps) \<le> complianceScore st"
proof (induction ps arbitrary: st)
  case Nil
  show ?case by simp
next
  case (Cons p ps)
  have "complianceScore (policy_step d st p) \<le> complianceScore st"
    by (simp add: policy_step_def Let_def)
  with Cons.IH [of "policy_step d st p"] show ?case by simp
qed

lemma basic_score_le: "complianceScore (basic_rules d ps) \<le> 100"
proof -
  have pen: "list_all (\<lambda>r. 0 \<le> penalty r) languageRules"
    by (simp add: languageRules_def)
  have "complianceScore (foldl (language_step d)
      \<lparr>issues = [], suggestions = [], complianceScore = 100\<rparr> languageRules) \<le> 100"
    using language_score [OF pen, of d "\<lparr>issues = [], suggestions = [], complianceScore = 100\<rparr>"]
    by simp
  then show ?thesis
    unfolding basic_rules_def
    by (meson policy_score section_score order_trans)
qed

lemma risk_of_clamped: "risk_of (max s 0) = risk_of s"
  by (simp add: risk_of_def max_def)

lemma basic_score_risk_ok: "score_risk_ok (performBasicAnalysis d ps)"
  using basic_score_le [of d ps]
  by (simp add: score_risk_ok_def performBasicAnalysis_def Let_def risk_of_clamped)

text \<open>
  C6 (scenario A): a document with exactly three matches of \<^verbatim>\<open>/\bshall\b/gi\<close>, no
  \<^verbatim>\<open>hereby\<close>, no run of two or more periods, a match for the parties patterns and for
  the term patterns and none for the termination patterns, analysed by the rule-based
  tier with no policies, gets the score \<open>100 - min (3 * 2) 20 - 10 = 84\<close> and the risk
  level \<^verbatim>\<open>Low\<close>.
\<close>

theorem scenario_A:
  assumes "count_word ''shall'' False d = 3"
    and "count_word ''hereby'' False d = 0"
    and "count_dot_runs d = 0"
    and "list_ex (\<lambda>p. test_ci p d) [''parties'', ''party'']"
    and "list_ex (\<lambda>p. test_ci p d) [''term'', ''duration'', ''expir'']"
    and "\<not> list_ex (\<lambda>p. test_ci p d) [''terminat'', ''end'', ''cancel'']"
  shows "get_prop (performBasicAnalysis d []) ''complianceScore'' = Inr (JNum 84)
       \<and> get_prop (performBasicAnalysis d []) ''riskLevel'' = Inr (JStr ''Low'')
       \<and> (84::int) = 100 - min (3 * 2) 20 - 10"
  using assms
  by (simp add: performBasicAnalysis_def basic_rules_def languageRules_def essentialSections_def
      language_step_def section_step_def Let_def risk_of_def)

theorem scenario_A_witness:
  "count_word ''shall'' False ''The parties shall pay. The term shall run. The buyer shall own.'' = 3
   \<and> get_prop (performBasicAnalysis ''The parties shall pay. The term shall run. The buyer shall own.'' [])
        ''complianceScore'' = Inr (JNum 84)
   \<and> get_prop (performBasicAnalysis ''The parties shall pay. The term shall run. The buyer shall own.'' [])
        ''riskLevel'' = Inr (JStr ''Low'')"
proof -
  let ?d = "''The parties shall pay. The term shall run. The buyer shall own.''"
  have 1: "count_word ''shall'' False ?d = 3" by code_simp
  have 2: "count_word ''hereby'' False ?d = 0" by code_simp
  have 3: "count_dot_runs ?d = 0" by code_simp
  have 4: "list_ex (\<lambda>p. test_ci p ?d) [''parties'', ''party'']" by code_simp
  have 5: "list_ex (\<lambda>p. test_ci p ?d) [''term'', ''duration'', ''expir'']" by code_simp
  have 6: "\<not> list_ex (\<lambda>p. test_ci p ?d) [''terminat'', ''end'', ''cancel'']" by code_simp
  show ?thesis
    using scenario_A [OF 1 2 3 4 5 6] 1 by simp
qed

lemma extractKeywords_empty: "extractKeywords [] = []"
  by (simp add: extractKeywords_def keyword_tokens_def toLowerCase_def own_entries_def
      js_sort_def js_slice_to_def)

lemma missing_of_empty:
  "missingKeywords [] \<lparr>policy_id = [], name = [], content = [], policy_keywords = [''zzzz'']\<rparr>
     = [''zzzz'']"
  by (simp add: missingKeywords_def extractKeywords_empty js_slice_to_def)

lemma issues_unbounded: "\<exists>d ps. length (issues (basic_rules d ps)) > N"
proof -
  define p where "p = \<lparr>policy_id = [], name = [], content = [], policy_keywords = [''zzzz'']\<rparr>"
  have "length (filter (\<lambda>q. missingKeywords [] q \<noteq> []) (replicate (Suc N) p)) = Suc N"
    using missing_of_empty by (simp add: p_def)
  then have "length (issues (basic_rules [] (replicate (Suc N) p))) > N"
    unfolding basic_issue_count by linarith
  then show ?thesis by blast
qed

text \<open>
  C10: the rule-based analyzer returns at most 20 suggestions; its list of issues is not
  cut: it has one issue for each language rule that matches, one for each required
  section that is missing and one for each policy with an uncovered keyword, so that with
  enough policies it is longer than any given bound.
\<close>

theorem basic_suggestions_capped_issues_unbounded:
  "get_prop (performBasicAnalysis d ps) ''suggestions''
     = Inr (JArr (take 20 (suggestions (basic_rules d ps))))
   \<and> length (take 20 (suggestions (basic_rules d ps))) \<le> 20
   \<and> get_prop (performBasicAnalysis d ps) ''issues'' = Inr (JArr (issues (basic_rules d ps)))
   \<and> length (issues (basic_rules d ps))
       = length (filter (\<lambda>r. pattern r d > 0) languageRules)
         + length (filter (\<lambda>s. \<not> list_ex (\<lambda>p. test_ci p d) (patterns s) \<and> required s)
             essentialSections)
         + length (filter (\<lambda>p. missingKeywords d p \<noteq> []) ps)
   \<and> (\<forall>N. \<exists>d' ps'. length (issues (basic_rules d' ps')) > N)"
proof -
  have "get_prop (performBasicAnalysis d ps) ''suggestions''
     = Inr (JArr (take 20 (suggestions (basic_rules d ps))))"
    by (simp add: performBasicAnalysis_def Let_def js_slice_to_def)
  moreover have "get_prop (performBasicAnalysis d ps) ''issues''
     = Inr (JArr (issues (basic_rules d ps)))"
    by (simp add: performBasicAnalysis_def Let_def)
  ultimately show ?thesis
    using basic_issue_count [of d ps] issues_unbounded by simp
qed

theorem basic_suggestions_capped_issues_unbounded_witness:
  "length (issues (basic_rules ''The parties shall pay. The term shall run. The buyer shall own.''
       (replicate 30 \<lparr>policy_id = ''p'', name = ''Policy'', content = '''',
          policy_keywords = [''indemnity'']\<rparr>))) = 32
   \<and> length (take 20 (suggestions (basic_rules
       ''The parties shall pay. The term shall run. The buyer shall own.''
       (replicate 30 \<lparr>policy_id = ''p'', name = ''Policy'', content = '''',
          policy_keywords = [''indemnity'']\<rparr>)))) \<le> 20"
proof -
  let ?d = "''The parties shall pay. The term shall run. The buyer shall own.''"
  let ?p = "\<lparr>policy_id = ''p'', name = ''Policy'', content = '''', policy_keywords = [''indemnity'']\<rparr>"
  have 1: "length (filter (\<lambda>r. pattern r ?d > 0) languageRules) = 1"
    by code_simp
  have 2: "length (filter (\<lambda>s. \<not> list_ex (\<lambda>p. test_ci p ?d) (patterns s) \<and> required s)
             essentialSections) = 1"
    by code_simp
  have "missingKeywords ?d ?p \<noteq> []"
    by code_simp
  then have 3: "length (filter (\<lambda>p. missingKeywords ?d p \<noteq> []) (replicate 30 ?p)) = 30"
    by simp
  show ?thesis
    using basic_suggestions_capped_issues_unbounded [of ?d "replicate 30 ?p"]
    unfolding 1 2 3 by simp
qed

section \<open>Properties of the tiers and of the controller\<close>

lemma basic_issues_field:
  "get_prop (performBasicAnalysis d ps) ''issues'' = Inr (JArr (issues (basic_rules d ps)))"
  by (simp add: performBasicAnalysis_def Let_def)

lemma basic_suggestions_field:
  "get_prop (performBasicAnalysis d ps) ''suggestions''
     = Inr (JArr (take 20 (suggestions (basic_rules d ps))))"
  by (simp add: performBasicAnalysis_def Let_def js_slice_to_def)

lemma basic_complete: "complete_report (performBasicAnalysis d ps)"
  by (simp add: complete_report_def complete_stats_def performBasicAnalysis_def text_stats_def
      Let_def)

lemma rag_merge_degraded:
  "rag_merge d rel degraded_result (performBasicAnalysis d [])
     = Inr (JObj [(''complianceScore'', JNum 60),
                  (''issues'', JArr (mk_issue ''Analysis Error'' ''medium'' ''AI analysis unavailable''
                                       ''Using basic analysis only'' # issues (basic_rules d []))),
                  (''suggestions'', JArr (mk_suggestion ''General'' ''medium''
                                            ''Manual review recommended''
                                            ''Please have document reviewed by legal counsel''
                                          # take 20 (suggestions (basic_rules d [])))),
                  (''riskLevel'', JStr ''Medium''),
                  (''policiesAnalyzed'', JNum (of_nat (length rel))),
                  (''analysis'', text_stats d True True)])"
  by (simp add: rag_merge_def and_then_def degraded_result_def basic_issues_field
      basic_suggestions_field js_slice_to_def)

lemma rag_merge_fields:
  "rag_merge d rel claude basic = Inr R \<Longrightarrow>
     get_prop R ''complianceScore'' = get_prop claude ''complianceScore''
     \<and> get_prop R ''riskLevel'' = get_prop claude ''riskLevel''"
  by (auto simp: rag_merge_def and_then_def split: sum.splits)

lemma controller_returns: "\<exists>R. performEnhancedAnalysis ev pc an d ps = Inr R"
  by (auto simp: performEnhancedAnalysis_def split: option.splits sum.splits)


lemma retrieve_nothing: "retrieveRelevantPolicies ev (\<lambda>q n. Inr []) d 10 = []"
proof -
  have "query_chunks (\<lambda>q n. Inr []) k cs acc = Inr acc" for k cs and acc :: "snippet list"
    by (induction cs arbitrary: acc) simp_all
  then show ?thesis
    by (simp add: retrieveRelevantPolicies_def Let_def js_sort_def js_slice_to_def)
qed


lemma odd_rag:
  "performRAGAnalysis env0 (\<lambda>q n. Inr []) (\<lambda>p. Inr odd_reply) two_sentences
     = Inr odd_report"
  by (simp add: retrieve_nothing performRAGAnalysis_def Let_def analyzeWithClaude_def rag_merge_def
      and_then_def odd_reply_def odd_report_def basic_issues_field basic_suggestions_field
      js_slice_to_def)

lemma map_of_obj_set_same: "map_of (obj_set kvs k v) k = Some v"
proof (induction kvs)
  case Nil
  show ?case by simp
next
  case (Cons p kvs)
  obtain k' v' where p: "p = (k', v')"
    by (cases p)
  with Cons show ?case by simp
qed

lemma flags_incomplete: "\<not> complete_report (JObj (obj_set kvs ''analysis'' tier_flags))"
  by (simp add: complete_report_def complete_stats_def map_of_obj_set_same tier_flags_def)

lemma rag_merge_shape:
  assumes "rag_merge d rel claude basic = Inr R"
  shows "\<exists>score risk xs ys.
           get_prop claude ''complianceScore'' = Inr score
           \<and> get_prop claude ''riskLevel'' = Inr risk
           \<and> R = JObj [(''complianceScore'', score), (''issues'', JArr xs),
                        (''suggestions'', JArr ys), (''riskLevel'', risk),
                        (''policiesAnalyzed'', JNum (of_nat (length rel))),
                        (''analysis'', text_stats d True True)]"
  using assms by (auto simp: rag_merge_def and_then_def split: sum.splits)

lemma rag_merge_complete:
  assumes "rag_merge d rel claude basic = Inr R"
  shows "complete_report R
           = (is_number (get_prop claude ''complianceScore'')
              \<and> is_string (get_prop claude ''riskLevel''))"
proof -
  from rag_merge_shape [OF assms] obtain score risk xs ys where
    s: "get_prop claude ''complianceScore'' = Inr score" and
    r: "get_prop claude ''riskLevel'' = Inr risk" and
    R: "R = JObj [(''complianceScore'', score), (''issues'', JArr xs),
                  (''suggestions'', JArr ys), (''riskLevel'', risk),
                  (''policiesAnalyzed'', JNum (of_nat (length rel))),
                  (''analysis'', text_stats d True True)]"
    by blast
  show ?thesis
    unfolding R s r
    by (simp add: complete_report_def complete_stats_def text_stats_def)
qed

text \<open>
  C1, as amended: the controller never raises. When the run of the RAG tier raises, it
  returns the result of the rule-based tier on the document and the full policy set,
  without trying the AI tier although the generative capability is there. The result of
  the rule-based tier is a complete analysis result; the controller returns it after a
  failure of the RAG or of the AI tier and when there is no generative capability. When
  the RAG tier returns, the controller returns its report, which is complete exactly when
  the generative analysis it used has a numeric score and a string for the risk level.
  When the reply in the AI tier is a JSON object, the controller returns that object with
  the two tier flags for its statistics record, which is not a complete analysis result.
\<close>

theorem controller_fallback:
  "(\<exists>R. performEnhancedAnalysis ev pc an d ps = Inr R)
   \<and> (performRAGAnalysis ev c a d = Inl e \<longrightarrow>
        performEnhancedAnalysis ev (Some c) (Some a) d ps = Inr (performBasicAnalysis d ps))
   \<and> (performAIAnalysis a d ps = Inl e \<longrightarrow>
        performEnhancedAnalysis ev None (Some a) d ps = Inr (performBasicAnalysis d ps))
   \<and> performEnhancedAnalysis ev pc None d ps = Inr (performBasicAnalysis d ps)
   \<and> complete_report (performBasicAnalysis d ps)
   \<and> (performRAGAnalysis ev c a d = Inr R \<longrightarrow>
        performEnhancedAnalysis ev (Some c) (Some a) d ps = Inr R
        \<and> complete_report R
            = (is_number (get_prop (analyzeWithClaude a d (retrieveRelevantPolicies ev c d 10))
                            ''complianceScore'')
               \<and> is_string (get_prop (analyzeWithClaude a d (retrieveRelevantPolicies ev c d 10))
                              ''riskLevel'')))
   \<and> (a (ai_prompt ps d) = Inr (JObj kvs) \<longrightarrow>
        performEnhancedAnalysis ev None (Some a) d ps
          = Inr (JObj (obj_set kvs ''analysis'' tier_flags))
        \<and> \<not> complete_report (JObj (obj_set kvs ''analysis'' tier_flags)))"
proof -
  have 1: "performEnhancedAnalysis ev pc None d ps = Inr (performBasicAnalysis d ps)"
    by (simp add: performEnhancedAnalysis_def split: option.splits)
  have 2: "performRAGAnalysis ev c a d = Inl e \<longrightarrow>
      performEnhancedAnalysis ev (Some c) (Some a) d ps = Inr (performBasicAnalysis d ps)"
    by (simp add: performEnhancedAnalysis_def)
  have 3: "performAIAnalysis a d ps = Inl e \<longrightarrow>
      performEnhancedAnalysis ev None (Some a) d ps = Inr (performBasicAnalysis d ps)"
    by (simp add: performEnhancedAnalysis_def)
  have 4: "performRAGAnalysis ev c a d = Inr R \<longrightarrow>
        performEnhancedAnalysis ev (Some c) (Some a) d ps = Inr R
        \<and> complete_report R
            = (is_number (get_prop (analyzeWithClaude a d (retrieveRelevantPolicies ev c d 10))
                            ''complianceScore'')
               \<and> is_string (get_prop (analyzeWithClaude a d (retrieveRelevantPolicies ev c d 10))
                              ''riskLevel''))"
  proof
    assume r: "performRAGAnalysis ev c a d = Inr R"
    then have "rag_merge d (retrieveRelevantPolicies ev c d 10)
        (analyzeWithClaude a d (retrieveRelevantPolicies ev c d 10)) (performBasicAnalysis d [])
        = Inr R"
      by (simp add: performRAGAnalysis_def Let_def)
    from rag_merge_complete [OF this] r
    show "performEnhancedAnalysis ev (Some c) (Some a) d ps = Inr R
        \<and> complete_report R
            = (is_number (get_prop (analyzeWithClaude a d (retrieveRelevantPolicies ev c d 10))
                            ''complianceScore'')
               \<and> is_string (get_prop (analyzeWithClaude a d (retrieveRelevantPolicies ev c d 10))
                              ''riskLevel''))"
      by (simp add: performEnhancedAnalysis_def)
  qed
  have 5: "a (ai_prompt ps d) = Inr (JObj kvs) \<longrightarrow>
        performEnhancedAnalysis ev None (Some a) d ps
          = Inr (JObj (obj_set kvs ''analysis'' tier_flags))
        \<and> \<not> complete_report (JObj (obj_set kvs ''analysis'' tier_flags))"
    using flags_incomplete [of kvs]
    by (simp add: performEnhancedAnalysis_def performAIAnalysis_def and_then_def tier_flags_def)
  from 1 2 3 4 5 controller_returns [of ev pc an d ps] basic_complete [of d ps]
  show ?thesis
    by blast
qed

theorem controller_fallback_witness:
  "performRAGAnalysis env0 (\<lambda>q n. Inr []) (\<lambda>p. Inr (JObj [])) two_sentences = Inl TypeError
   \<and> performEnhancedAnalysis env0 (Some (\<lambda>q n. Inr [])) (Some (\<lambda>p. Inr (JObj []))) two_sentences
        [one_policy]
       = Inr (performBasicAnalysis two_sentences [one_policy])
   \<and> performEnhancedAnalysis env0 None (Some (\<lambda>p. Inl SyntaxError)) two_sentences [one_policy]
       = Inr (performBasicAnalysis two_sentences [one_policy])
   \<and> complete_report (performBasicAnalysis two_sentences [one_policy])
   \<and> performEnhancedAnalysis env0 (Some (\<lambda>q n. Inr [])) (Some (\<lambda>p. Inr odd_reply)) two_sentences
        [one_policy]
       = Inr odd_report
   \<and> complete_report odd_report
   \<and> performEnhancedAnalysis env0 None (Some (\<lambda>p. Inr (JObj []))) two_sentences [one_policy]
       = Inr (JObj [(''analysis'', tier_flags)])
   \<and> \<not> complete_report (JObj [(''analysis'', tier_flags)])"
proof -
  have f: "performRAGAnalysis env0 (\<lambda>q n. Inr []) (\<lambda>p. Inr (JObj [])) two_sentences = Inl TypeError"
    by (simp add: performRAGAnalysis_def analyzeWithClaude_def rag_merge_def and_then_def Let_def)
  have g: "performAIAnalysis (\<lambda>p. Inl SyntaxError) two_sentences [one_policy] = Inl SyntaxError"
    by (simp add: performAIAnalysis_def and_then_def)
  have h: "is_number (get_prop (analyzeWithClaude (\<lambda>p. Inr odd_reply) two_sentences
              (retrieveRelevantPolicies env0 (\<lambda>q n. Inr []) two_sentences 10)) ''complianceScore'')
         \<and> is_string (get_prop (analyzeWithClaude (\<lambda>p. Inr odd_reply) two_sentences
              (retrieveRelevantPolicies env0 (\<lambda>q n. Inr []) two_sentences 10)) ''riskLevel'')"
    by (simp add: analyzeWithClaude_def odd_reply_def)
  have 1: "performEnhancedAnalysis env0 (Some (\<lambda>q n. Inr [])) (Some (\<lambda>p. Inr (JObj [])))
        two_sentences [one_policy] = Inr (performBasicAnalysis two_sentences [one_policy])
      \<and> complete_report (performBasicAnalysis two_sentences [one_policy])"
    using controller_fallback [where ev = env0 and d = two_sentences and ps = "[one_policy]"
        and c = "\<lambda>q n. Inr []" and a = "\<lambda>p. Inr (JObj [])" and e = TypeError] f
    by blast
  have 2: "performEnhancedAnalysis env0 None (Some (\<lambda>p. Inl SyntaxError)) two_sentences [one_policy]
       = Inr (performBasicAnalysis two_sentences [one_policy])"
    using controller_fallback [where ev = env0 and d = two_sentences and ps = "[one_policy]"
        and a = "\<lambda>p. Inl SyntaxError" and e = SyntaxError] g
    by blast
  have 3: "performEnhancedAnalysis env0 (Some (\<lambda>q n. Inr [])) (Some (\<lambda>p. Inr odd_reply))
        two_sentences [one_policy] = Inr odd_report
      \<and> complete_report odd_report"
    using controller_fallback [where ev = env0 and d = two_sentences and ps = "[one_policy]"
        and c = "\<lambda>q n. Inr []" and a = "\<lambda>p. Inr odd_reply" and R = odd_report] odd_rag h
    by blast
  have 4: "performEnhancedAnalysis env0 None (Some (\<lambda>p. Inr (JObj []))) two_sentences [one_policy]
       = Inr (JObj [(''analysis'', tier_flags)])
      \<and> \<not> complete_report (JObj [(''analysis'', tier_flags)])"
    using controller_fallback [where ev = env0 and d = two_sentences and ps = "[one_policy]"
        and a = "\<lambda>p. Inr (JObj [])" and kvs = "[]"]
    by simp
  from f 1 2 3 4 show ?thesis
    by blast
qed

theorem controller_complete_counterexample:
  "performEnhancedAnalysis env0 None (Some (\<lambda>p. Inr (JObj []))) ''x'' [one_policy]
     = Inr (JObj [(''analysis'', JObj [(''aiAnalyzed'', JBool True), (''ragUsed'', JBool False)])])
   \<and> \<not> complete_report
         (JObj [(''analysis'', JObj [(''aiAnalyzed'', JBool True), (''ragUsed'', JBool False)])])"
  by (simp add: performEnhancedAnalysis_def performAIAnalysis_def and_then_def complete_report_def)







text \<open>
  C3, as amended: when the generative service raises or its text is not JSON, the RAG
  tier takes the fixed degraded result (score 60, risk \<^verbatim>\<open>Medium\<close>, one issue and one
  suggestion) and returns it merged with the issues and suggestions of the rule-based
  analyzer; the controller returns that report. A reply that is JSON but not of the output
  schema is not replaced: the reply \<^verbatim>\<open>{}\<close> is passed on as it is, after which the tier
  raises.
\<close>

theorem generative_failure_degrades:
  assumes "a (rag_prompt (retrieveRelevantPolicies ev c d 10) d) = Inl e"
  shows "analyzeWithClaude a d (retrieveRelevantPolicies ev c d 10) = degraded_result
       \<and> performRAGAnalysis ev c a d
           = Inr (JObj [(''complianceScore'', JNum 60),
                        (''issues'', JArr (mk_issue ''Analysis Error'' ''medium''
                                             ''AI analysis unavailable'' ''Using basic analysis only''
                                           # issues (basic_rules d []))),
                        (''suggestions'', JArr (mk_suggestion ''General'' ''medium''
                                                  ''Manual review recommended''
                                                  ''Please have document reviewed by legal counsel''
                                                # take 20 (suggestions (basic_rules d [])))),
                        (''riskLevel'', JStr ''Medium''),
                        (''policiesAnalyzed'',
                           JNum (of_nat (length (retrieveRelevantPolicies ev c d 10)))),
                        (''analysis'', text_stats d True True)])
       \<and> performEnhancedAnalysis ev (Some c) (Some a) d ps = performRAGAnalysis ev c a d"
proof -
  have deg: "analyzeWithClaude a d (retrieveRelevantPolicies ev c d 10) = degraded_result"
    using assms by (simp add: analyzeWithClaude_def)
  then have rag: "performRAGAnalysis ev c a d
      = rag_merge d (retrieveRelevantPolicies ev c d 10) degraded_result (performBasicAnalysis d [])"
    by (simp add: performRAGAnalysis_def Let_def)
  show ?thesis
    unfolding deg rag rag_merge_degraded
    by (simp add: performEnhancedAnalysis_def performRAGAnalysis_def Let_def deg rag_merge_degraded)
qed

theorem generative_failure_degrades_witness:
  "performRAGAnalysis env0 (\<lambda>q n. Inr []) (\<lambda>p. Inl SyntaxError) two_sentences
     = Inr (JObj [(''complianceScore'', JNum 60),
                  (''issues'', JArr (mk_issue ''Analysis Error'' ''medium''
                                       ''AI analysis unavailable'' ''Using basic analysis only''
                                     # issues (basic_rules two_sentences []))),
                  (''suggestions'', JArr (mk_suggestion ''General'' ''medium''
                                            ''Manual review recommended''
                                            ''Please have document reviewed by legal counsel''
                                          # take 20 (suggestions (basic_rules two_sentences [])))),
                  (''riskLevel'', JStr ''Medium''),
                  (''policiesAnalyzed'', JNum 0),
                  (''analysis'', text_stats two_sentences True True)])"
  using generative_failure_degrades [of "\<lambda>p. Inl SyntaxError" env0 "\<lambda>q n. Inr []" two_sentences
      SyntaxError "[]"]
  by (simp add: retrieve_nothing)

theorem schema_mismatch_counterexample:
  "analyzeWithClaude (\<lambda>p. Inr (JObj [])) two_sentences [] = JObj []
   \<and> JObj [] \<noteq> degraded_result
   \<and> performRAGAnalysis env0 (\<lambda>q n. Inr []) (\<lambda>p. Inr (JObj [])) two_sentences = Inl TypeError"
  by (simp add: performRAGAnalysis_def analyzeWithClaude_def rag_merge_def and_then_def Let_def
      degraded_result_def)

text \<open>
  C4, as amended: when the generative service raises or its text is not JSON in the AI
  tier, \<^verbatim>\<open>performAIAnalysis\<close> raises that error instead of degrading, the controller
  catches it and returns the rule-based analysis with the full policy set, and the
  analyze operation answers with a report. As stated the claim fails: such a call
  succeeds.
\<close>

theorem ai_failure_falls_back:
  assumes "a (ai_prompt ps d) = Inl e"
  shows "performAIAnalysis a d ps = Inl e
       \<and> performEnhancedAnalysis ev None (Some a) d ps = Inr (performBasicAnalysis d ps)
       \<and> (d \<noteq> [] \<and> ps \<noteq> [] \<longrightarrow>
            (\<exists>r. fst (analyze ev None (Some a) ps store new_id now d) = Status200 r))"
  using assms
  by (simp add: performAIAnalysis_def performEnhancedAnalysis_def and_then_def analyze_def Let_def)

theorem ai_failure_falls_back_witness:
  "performAIAnalysis (\<lambda>p. Inl SyntaxError) two_sentences [one_policy] = Inl SyntaxError
   \<and> performEnhancedAnalysis env0 None (Some (\<lambda>p. Inl SyntaxError)) two_sentences [one_policy]
       = Inr (performBasicAnalysis two_sentences [one_policy])"
  using ai_failure_falls_back [of "\<lambda>p. Inl SyntaxError" "[one_policy]" two_sentences SyntaxError env0]
  by simp

theorem ai_malformed_counterexample:
  "performEnhancedAnalysis env0 None (Some (\<lambda>p. Inl SyntaxError)) two_sentences [one_policy]
     = Inr (performBasicAnalysis two_sentences [one_policy])
   \<and> fst (analyze env0 None (Some (\<lambda>p. Inl SyntaxError)) [one_policy] [] ''id1'' ''2024-01-01''
            two_sentences)
       = Status200 (JObj [(''success'', JBool True),
            (''result'', JObj (obj_spread
               [(''id'', JStr ''id1''), (''analysisDate'', JStr ''2024-01-01''),
                (''documentLength'', JNum (of_nat (length two_sentences))),
                (''wordCount'', JNum (of_nat (length (split_runs is_space two_sentences))))]
               (performBasicAnalysis two_sentences [one_policy])))])"
  by (simp add: performAIAnalysis_def performEnhancedAnalysis_def and_then_def analyze_def Let_def
      two_sentences_def)

lemma degraded_score_risk_ok: "score_risk_ok degraded_result"
  by (simp add: score_risk_ok_def degraded_result_def risk_of_def)

text \<open>
  C5, as amended: every report of the rule-based tier, which is what the controller
  returns when there is no generative capability, has an integer score from 0 to 100 and
  the risk level that the thresholds give for it; so has the degraded result of the RAG
  tier. A report of the RAG tier otherwise carries the score and the risk level of the
  generative reply as they are, unchecked: a reply with the score 150 gives a report with
  the score 150.
\<close>

theorem basic_tier_score_invariant:
  "score_risk_ok (performBasicAnalysis d ps)
   \<and> performEnhancedAnalysis ev pc None d ps = Inr (performBasicAnalysis d ps)
   \<and> score_risk_ok degraded_result
   \<and> (performRAGAnalysis ev c a d = Inr R \<longrightarrow>
        get_prop R ''complianceScore''
          = get_prop (analyzeWithClaude a d (retrieveRelevantPolicies ev c d 10)) ''complianceScore''
        \<and> get_prop R ''riskLevel''
          = get_prop (analyzeWithClaude a d (retrieveRelevantPolicies ev c d 10)) ''riskLevel'')"
proof -
  have "performEnhancedAnalysis ev pc None d ps = Inr (performBasicAnalysis d ps)"
    by (simp add: performEnhancedAnalysis_def split: option.splits)
  moreover have "performRAGAnalysis ev c a d = Inr R \<longrightarrow>
        get_prop R ''complianceScore''
          = get_prop (analyzeWithClaude a d (retrieveRelevantPolicies ev c d 10)) ''complianceScore''
        \<and> get_prop R ''riskLevel''
          = get_prop (analyzeWithClaude a d (retrieveRelevantPolicies ev c d 10)) ''riskLevel''"
    using rag_merge_fields by (simp add: performRAGAnalysis_def Let_def)
  ultimately show ?thesis
    using basic_score_risk_ok [of d ps] degraded_score_risk_ok by simp
qed

theorem basic_tier_score_invariant_witness:
  "score_risk_ok (performBasicAnalysis two_sentences [one_policy])
   \<and> get_prop odd_report ''complianceScore''
       = get_prop (analyzeWithClaude (\<lambda>p. Inr odd_reply) two_sentences
                     (retrieveRelevantPolicies env0 (\<lambda>q n. Inr []) two_sentences 10))
           ''complianceScore''"
  using basic_tier_score_invariant [where d = two_sentences and ps = "[one_policy]" and ev = env0
      and c = "\<lambda>q n. Inr []" and a = "\<lambda>p. Inr odd_reply" and R = odd_report] odd_rag
  by simp

theorem score_invariant_counterexample:
  "performEnhancedAnalysis env0 (Some (\<lambda>q n. Inr [])) (Some (\<lambda>p. Inr odd_reply)) two_sentences
       [one_policy]
     = Inr odd_report
   \<and> \<not> score_risk_ok
         odd_report"
  by (simp add: performEnhancedAnalysis_def odd_rag score_risk_ok_def odd_report_def)

section \<open>Properties of the keyword extractor\<close>

lemma to_lower_idem: "to_lower (to_lower c) = to_lower c"
  by (simp add: to_lower_def Let_def)

lemma split_runs_chars: "w \<in> set (split_runs P s) \<Longrightarrow> set w \<subseteq> set s"
proof (induction P s arbitrary: w rule: split_runs.induct)
  case (1 P)
  then show ?case by simp
next
  case (2 P c cs)
  show ?case
  proof (cases "P c")
    case True
    with "2.prems" have "w = [] \<or> w \<in> set (split_runs P (dropWhile P cs))"
      by simp
    then show ?thesis
    proof
      assume "w = []" then show ?thesis by simp
    next
      assume "w \<in> set (split_runs P (dropWhile P cs))"
      then have "set w \<subseteq> set (dropWhile P cs)"
        using "2.IH"(1) True by blast
      then show ?thesis
        using set_dropWhileD by fastforce
    qed
  next
    case False
    show ?thesis
    proof (cases "split_runs P cs")
      case Nil
      with False "2.prems" show ?thesis by simp
    next
      case (Cons v vs)
      with False "2.prems" have "w = c # v \<or> w \<in> set vs"
        by simp
      moreover have "set v \<subseteq> set cs" "\<And>u. u \<in> set vs \<Longrightarrow> set u \<subseteq> set cs"
        using "2.IH"(2) False Cons by simp_all
      ultimately show ?thesis by auto
    qed
  qed
qed

lemma to_lower_blank: "to_lower (CHR '' '') = CHR '' ''"
  by (simp add: to_lower_def)

lemma keyword_tokens_props:
  assumes "w \<in> set (keyword_tokens t)"
  shows "length w > 3 \<and> w \<notin> set commonWords \<and> toLowerCase w = w"
proof -
  define f where "f = (\<lambda>c. if \<not> is_word c \<and> \<not> is_space c then CHR '' '' else c)"
  from assms have w: "w \<in> set (split_runs is_space (map f (toLowerCase t)))"
    and p: "length w > 3 \<and> w \<notin> set commonWords"
    by (simp_all add: keyword_tokens_def f_def)
  have fixd: "to_lower (f (to_lower x)) = f (to_lower x)" for x
    unfolding f_def by (simp only: to_lower_blank to_lower_idem if_distrib [of to_lower] if_cancel)
  have "to_lower c = c" if "c \<in> set w" for c
  proof -
    from that split_runs_chars [OF w] have "c \<in> set (map f (toLowerCase t))"
      by blast
    then have "c \<in> (\<lambda>x. f (to_lower x)) ` set t"
      by (simp only: toLowerCase_def set_map image_image)
    then obtain x where "c = f (to_lower x)"
      by blast
    then show ?thesis
      by (simp only: fixd)
  qed
  then have "map to_lower w = w"
    by (rule map_idI)
  with p show ?thesis
    by (simp only: toLowerCase_def simp_thms)
qed

lemma set_insort_cmp: "set (insort_cmp cmp x ys) = insert x (set ys)"
  by (induction ys) auto

lemma set_js_sort: "set (js_sort cmp xs) = set xs"
  by (induction xs) (simp_all add: js_sort_def set_insort_cmp)

lemma set_own_entries: "set (own_entries ps) = set ps"
  by (auto simp: own_entries_def)

lemma map_fst_obj_set:
  "map fst (obj_set kvs k v) = (if k \<in> set (map fst kvs) then map fst kvs else map fst kvs @ [k])"
proof (induction kvs)
  case Nil
  show ?case by simp
next
  case (Cons p kvs)
  obtain k' v' where p: "p = (k', v')"
    by (cases p)
  show ?case
  proof (cases "k' = k")
    case True
    with p show ?thesis by simp
  next
    case False
    with p Cons.IH show ?thesis by (simp del: set_map)
  qed
qed

lemma keys_obj_set: "fst ` set (obj_set kvs k v) = insert k (fst ` set kvs)"
proof -
  have "set (map fst (obj_set kvs k v)) = insert k (set (map fst kvs))"
    unfolding map_fst_obj_set by auto
  then show ?thesis by simp
qed

lemma keys_bump: "fst ` set (bump fr w) \<subseteq> insert w (fst ` set fr)"
  by (auto simp: bump_def keys_obj_set split: option.splits counter.splits)

lemma keys_bump_all: "fst ` set (foldl bump fr ws) \<subseteq> fst ` set fr \<union> set ws"
proof (induction ws arbitrary: fr)
  case Nil
  show ?case by simp
next
  case (Cons w ws)
  have "fst ` set (foldl bump (bump fr w) ws) \<subseteq> fst ` set (bump fr w) \<union> set ws"
    by (rule Cons.IH)
  also have "\<dots> \<subseteq> insert w (fst ` set fr) \<union> set ws"
    using keys_bump [of fr w] by blast
  finally show ?case by simp
qed

lemma extractKeywords_subset: "set (extractKeywords t) \<subseteq> set (keyword_tokens t)"
proof -
  let ?E = "js_sort by_count_desc (own_entries (foldl bump [] (keyword_tokens t)))"
  have "set (extractKeywords t) = fst ` set (take 50 ?E)"
    by (simp add: extractKeywords_def Let_def js_slice_to_def)
  also have "\<dots> \<subseteq> fst ` set ?E"
    by (rule image_mono) (rule set_take_subset)
  also have "\<dots> = fst ` set (foldl bump [] (keyword_tokens t))"
    by (simp add: set_js_sort set_own_entries)
  also have "\<dots> \<subseteq> set (keyword_tokens t)"
    using keys_bump_all [of "[]" "keyword_tokens t"] by simp
  finally show ?thesis .
qed


lemma obj_set_new: "k \<notin> set (map fst kvs) \<Longrightarrow> obj_set kvs k v = kvs @ [(k, v)]"
proof (induction kvs)
  case Nil
  show ?case by simp
next
  case (Cons p kvs)
  obtain k' v' where p: "p = (k', v')"
    by (cases p)
  from Cons.prems p have "k' \<noteq> k" and "k \<notin> set (map fst kvs)"
    by auto
  with Cons.IH p show ?case by simp
qed

lemma obj_set_update:
  "distinct ks \<Longrightarrow> k \<in> set ks \<Longrightarrow>
   obj_set (map (\<lambda>x. (x, g x)) ks) k v = map (\<lambda>x. (x, if x = k then v else g x)) ks"
proof (induction ks)
  case Nil
  then show ?case by simp
next
  case (Cons a ks)
  show ?case
  proof (cases "a = k")
    case True
    with Cons.prems have "k \<notin> set ks" by simp
    then have "map (\<lambda>x. (x, if x = k then v else g x)) ks = map (\<lambda>x. (x, g x)) ks"
      by (intro map_cong) auto
    with True show ?thesis by simp
  next
    case False
    with Cons show ?thesis by simp
  qed
qed

lemma first_seen_snoc:
  "first_seen (xs @ [x]) = (if x \<in> set xs then first_seen xs else first_seen xs @ [x])"
  by (simp add: first_seen_def)

lemma set_first_seen: "set (first_seen xs) = set xs"
  by (simp add: first_seen_def)

lemma distinct_first_seen: "distinct (first_seen xs)"
  by (simp add: first_seen_def)

lemma count_list_snoc: "count_list (xs @ [y]) x = count_list xs x + (if x = y then 1 else 0)"
  by (induction xs) simp_all

lemma count_list_filter: "P x \<Longrightarrow> count_list (filter P xs) x = count_list xs x"
  by (induction xs) auto

lemma bump_proto: "bump fr ''__proto__'' = fr"
  by (simp add: bump_def)

lemma bump_all_proto: "foldl bump fr ws = foldl bump fr (filter (\<lambda>w. w \<noteq> ''__proto__'') ws)"
  by (induction ws arbitrary: fr) (simp_all add: bump_proto)

lemma bump_counts:
  assumes "''__proto__'' \<notin> set ws" and "''constructor'' \<notin> set ws"
  shows "foldl bump [] ws = map (\<lambda>k. (k, Count (count_list ws k))) (first_seen ws)"
  using assms
proof (induction ws rule: rev_induct)
  case Nil
  show ?case by (simp add: first_seen_def)
next
  case (snoc w ws)
  then have IH: "foldl bump [] ws = map (\<lambda>k. (k, Count (count_list ws k))) (first_seen ws)"
    and w: "w \<noteq> ''__proto__''" "w \<noteq> ''constructor''"
    by auto
  show ?case
  proof (cases "w \<in> set ws")
    case True
    then have "map_of (foldl bump [] ws) w = Some (Count (count_list ws w))"
      by (simp add: IH map_of_map_restrict set_first_seen)
    then have "bump (foldl bump [] ws) w
        = obj_set (map (\<lambda>k. (k, Count (count_list ws k))) (first_seen ws)) w
            (Count (count_list ws w + 1))"
      using w by (simp add: bump_def IH)
    also have "\<dots> = map (\<lambda>x. (x, if x = w then Count (count_list ws w + 1)
                                      else Count (count_list ws x))) (first_seen ws)"
      using True by (intro obj_set_update) (simp_all add: distinct_first_seen set_first_seen)
    also have "\<dots> = map (\<lambda>k. (k, Count (count_list (ws @ [w]) k))) (first_seen ws)"
      by (intro map_cong) (simp_all add: count_list_snoc)
    finally show ?thesis
      using True by (simp add: first_seen_snoc)
  next
    case False
    then have "map_of (foldl bump [] ws) w = None"
      by (simp add: IH map_of_map_restrict set_first_seen)
    then have "bump (foldl bump [] ws) w
        = obj_set (map (\<lambda>k. (k, Count (count_list ws k))) (first_seen ws)) w (Count 1)"
      using w by (simp add: bump_def IH)
    also have "\<dots> = map (\<lambda>k. (k, Count (count_list ws k))) (first_seen ws) @ [(w, Count 1)]"
      using False by (intro obj_set_new) (simp add: comp_def set_first_seen)
    also have "map (\<lambda>k. (k, Count (count_list ws k))) (first_seen ws)
        = map (\<lambda>k. (k, Count (count_list (ws @ [w]) k))) (first_seen ws)"
      using False by (intro map_cong) (auto simp: count_list_snoc set_first_seen)
    finally show ?thesis
      using False by (simp add: first_seen_snoc count_list_snoc count_notin)
  qed
qed

lemma insort_key_pairs:
  "insort_key (\<lambda>p. f (fst p)) (k, g k) (map (\<lambda>x. (x, g x)) ys)
     = map (\<lambda>x. (x, g x)) (insort_key f k ys)"
  by (induction ys) simp_all

lemma sort_key_pairs:
  "sort_key (\<lambda>p. f (fst p)) (map (\<lambda>x. (x, g x)) ks) = map (\<lambda>x. (x, g x)) (sort_key f ks)"
  by (induction ks) (simp_all add: insort_key_pairs)

lemma own_entries_pairs:
  "own_entries (map (\<lambda>x. (x, g x)) ks)
     = map (\<lambda>x. (x, g x))
         (sort_key digits_value (filter is_array_index ks) @ filter (\<lambda>k. \<not> is_array_index k) ks)"
  by (simp add: own_entries_def filter_map comp_def sort_key_pairs)

lemma insort_cmp_pairs:
  "insort_cmp by_count_desc (k, Count (c k)) (map (\<lambda>x. (x, Count (c x))) ys)
     = map (\<lambda>x. (x, Count (c x))) (insort_cmp (\<lambda>a b. int (c b) - int (c a)) k ys)"
  by (induction ys) simp_all

lemma js_sort_pairs:
  "js_sort by_count_desc (map (\<lambda>x. (x, Count (c x))) ks)
     = map (\<lambda>x. (x, Count (c x))) (js_sort (\<lambda>a b. int (c b) - int (c a)) ks)"
  by (induction ks) (simp_all add: js_sort_def insort_cmp_pairs)

lemma insort_cmp_sorted:
  fixes c :: "'a \<Rightarrow> nat" and pos :: "'a \<Rightarrow> nat"
  assumes "sorted_wrt (\<lambda>a b. c a > c b \<or> (c a = c b \<and> pos a < pos b)) ys"
    and "\<forall>y \<in> set ys. pos x < pos y"
  shows "sorted_wrt (\<lambda>a b. c a > c b \<or> (c a = c b \<and> pos a < pos b))
           (insort_cmp (\<lambda>a b. int (c b) - int (c a)) x ys)"
  using assms
proof (induction ys)
  case Nil
  show ?case by simp
next
  case (Cons y ys)
  show ?case
  proof (cases "c y \<le> c x")
    case True
    have "c z \<le> c y" if "z \<in> set ys" for z
      using Cons.prems(1) that by auto
    then have "c z \<le> c x" if "z \<in> set (y # ys)" for z
      using True that by (auto intro: order_trans)
    then have "\<forall>z \<in> set (y # ys). c x > c z \<or> (c x = c z \<and> pos x < pos z)"
      using Cons.prems(2) by (metis le_neq_implies_less)
    with True Cons.prems(1) show ?thesis by simp
  next
    case False
    have "sorted_wrt (\<lambda>a b. c a > c b \<or> (c a = c b \<and> pos a < pos b))
           (insort_cmp (\<lambda>a b. int (c b) - int (c a)) x ys)"
      using Cons.prems by (intro Cons.IH) simp_all
    with False Cons.prems(1) show ?thesis
      by (auto simp: set_insort_cmp)
  qed
qed

lemma js_sort_sorted:
  fixes c :: "'a \<Rightarrow> nat"
  assumes "distinct ks"
  shows "sorted_wrt (\<lambda>a b. c a > c b \<or> (c a = c b \<and> index_of ks a < index_of ks b))
           (js_sort (\<lambda>a b. int (c b) - int (c a)) ks)"
  using assms
proof (induction ks)
  case Nil
  show ?case by (simp add: js_sort_def)
next
  case (Cons x xs)
  let ?cmp = "\<lambda>a b. int (c b) - int (c a)"
  have "sorted_wrt (\<lambda>a b. c a > c b \<or> (c a = c b \<and> index_of xs a < index_of xs b))
          (js_sort ?cmp xs)"
    using Cons by simp
  then have "sorted_wrt (\<lambda>a b. c a > c b
                \<or> (c a = c b \<and> index_of (x # xs) a < index_of (x # xs) b)) (js_sort ?cmp xs)"
    using Cons.prems by (rule_tac sorted_wrt_mono_rel) (auto simp: set_js_sort)
  moreover have "\<forall>y \<in> set (js_sort ?cmp xs). index_of (x # xs) x < index_of (x # xs) y"
    using Cons.prems by (auto simp: set_js_sort)
  ultimately have "sorted_wrt (\<lambda>a b. c a > c b
                \<or> (c a = c b \<and> index_of (x # xs) a < index_of (x # xs) b))
             (insort_cmp ?cmp x (js_sort ?cmp xs))"
    by (rule insort_cmp_sorted)
  then show ?case
    by (simp add: js_sort_def)
qed

lemma extractKeywords_sorted:
  assumes "''constructor'' \<notin> set (keyword_tokens t)"
  shows "ranked (keyword_tokens t) (key_order (keyword_tokens t)) (extractKeywords t)"
proof -
  define ws where "ws = filter (\<lambda>w. w \<noteq> ''__proto__'') (keyword_tokens t)"
  define c where "c = count_list ws"
  define K where "K = key_order (keyword_tokens t)"
  let ?cmp = "\<lambda>a b. int (c b) - int (c a)"
  have K: "K = sort_key digits_value (filter is_array_index (first_seen ws))
               @ filter (\<lambda>k. \<not> is_array_index k) (first_seen ws)"
    by (simp add: K_def key_order_def ws_def Let_def)
  have "foldl bump [] (keyword_tokens t) = foldl bump [] ws"
    unfolding ws_def by (rule bump_all_proto)
  also have "\<dots> = map (\<lambda>k. (k, Count (c k))) (first_seen ws)"
    unfolding c_def using assms by (intro bump_counts) (simp_all add: ws_def)
  finally have fr: "foldl bump [] (keyword_tokens t) = map (\<lambda>k. (k, Count (c k))) (first_seen ws)" .
  have "own_entries (foldl bump [] (keyword_tokens t)) = map (\<lambda>k. (k, Count (c k))) K"
    unfolding fr K by (rule own_entries_pairs)
  then have "js_sort by_count_desc (own_entries (foldl bump [] (keyword_tokens t)))
      = map (\<lambda>k. (k, Count (c k))) (js_sort ?cmp K)"
    by (simp only: js_sort_pairs)
  then have "extractKeywords t = take 50 (js_sort ?cmp K)"
    by (simp add: extractKeywords_def Let_def js_slice_to_def take_map [symmetric] comp_def)
  moreover have "distinct K"
    unfolding K by (auto simp: distinct_first_seen)
  then have "sorted_wrt (\<lambda>a b. c a > c b \<or> (c a = c b \<and> index_of K a < index_of K b))
      (js_sort ?cmp K)"
    by (rule js_sort_sorted)
  ultimately have s: "sorted_wrt (\<lambda>a b. c a > c b \<or> (c a = c b \<and> index_of K a < index_of K b))
      (extractKeywords t)"
    by (simp add: sorted_wrt_take)
  have "set (extractKeywords t) \<subseteq> set K"
    using \<open>extractKeywords t = take 50 (js_sort ?cmp K)\<close> set_take_subset [of 50 "js_sort ?cmp K"]
    by (simp add: set_js_sort)
  also have "set K = set ws"
    unfolding K by (auto simp: set_first_seen)
  finally have "c a = count_list (keyword_tokens t) a" if "a \<in> set (extractKeywords t)" for a
    using that unfolding c_def ws_def by (intro count_list_filter) auto
  with s show ?thesis
    unfolding ranked_def K_def
    by (rule_tac sorted_wrt_mono_rel) auto
qed


lemma first_seen_Cons: "first_seen (x # xs) = x # filter (\<lambda>y. y \<noteq> x) (first_seen xs)"
proof -
  have "remdups (ys @ [x]) = filter (\<lambda>y. y \<noteq> x) (remdups ys) @ [x]" for ys
    by (induction ys) auto
  then show ?thesis
    by (simp add: first_seen_def rev_filter)
qed

lemma index_of_filter:
  "P a \<Longrightarrow> P b \<Longrightarrow>
   (index_of (filter P xs) a < index_of (filter P xs) b) = (index_of xs a < index_of xs b)"
  by (induction xs) auto

lemma index_of_first_seen:
  "(index_of (first_seen xs) a < index_of (first_seen xs) b) = (index_of xs a < index_of xs b)"
proof (induction xs)
  case Nil
  show ?case by (simp add: first_seen_def)
next
  case (Cons x xs)
  show ?case
  proof (cases "a = x \<or> b = x")
    case True
    then show ?thesis by (auto simp: first_seen_Cons)
  next
    case False
    then have "(index_of (filter (\<lambda>y. y \<noteq> x) (first_seen xs)) a
                 < index_of (filter (\<lambda>y. y \<noteq> x) (first_seen xs)) b)
               = (index_of (first_seen xs) a < index_of (first_seen xs) b)"
      by (intro index_of_filter) simp_all
    with False Cons.IH show ?thesis
      by (simp add: first_seen_Cons)
  qed
qed

lemma key_order_plain:
  assumes "\<not> list_ex is_array_index stream"
  shows "key_order stream = first_seen (filter (\<lambda>w. w \<noteq> ''__proto__'') stream)"
proof -
  let ?ks = "first_seen (filter (\<lambda>w. w \<noteq> ''__proto__'') stream)"
  have "\<forall>k \<in> set ?ks. \<not> is_array_index k"
    using assms by (auto simp: set_first_seen list_ex_iff)
  then have "filter is_array_index ?ks = []" "filter (\<lambda>k. \<not> is_array_index k) ?ks = ?ks"
    by (simp_all add: filter_empty_conv filter_id_conv)
  then show ?thesis
    by (simp add: key_order_def Let_def)
qed

lemma extractKeywords_own:
  "set (extractKeywords t) \<subseteq> set (filter (\<lambda>w. w \<noteq> ''__proto__'') (keyword_tokens t))"
proof -
  let ?E = "js_sort by_count_desc (own_entries (foldl bump [] (keyword_tokens t)))"
  have "set (extractKeywords t) = fst ` set (take 50 ?E)"
    by (simp add: extractKeywords_def Let_def js_slice_to_def)
  also have "\<dots> \<subseteq> fst ` set ?E"
    by (rule image_mono) (rule set_take_subset)
  also have "\<dots> = fst ` set (foldl bump [] (filter (\<lambda>w. w \<noteq> ''__proto__'') (keyword_tokens t)))"
    by (simp add: set_js_sort set_own_entries bump_all_proto [symmetric])
  also have "\<dots> \<subseteq> set (filter (\<lambda>w. w \<noteq> ''__proto__'') (keyword_tokens t))"
    using keys_bump_all [of "[]" "filter (\<lambda>w. w \<noteq> ''__proto__'') (keyword_tokens t)"] by simp
  finally show ?thesis .
qed

text \<open>
  C9, as amended: the extractor returns at most 50 tokens, each lower-case, longer than
  3 characters and no stop-word. For a text without the token \<^verbatim>\<open>constructor\<close> (whose
  counter is a string, not a number) the result is in descending order of frequency, and
  tokens of equal frequency follow the key order of the frequency object: tokens that are
  array indices first, in ascending numeric order, then the others by first occurrence.
  If moreover no token is an array index, ties are broken by first occurrence in the token
  stream. As stated the claim fails for a text with a number in it: in
  \<^verbatim>\<open>beta 2024\<close> both tokens occur once and \<^verbatim>\<open>2024\<close> is returned first.
\<close>

theorem extractKeywords_ranked:
  "length (extractKeywords t) \<le> 50
   \<and> (\<forall>w \<in> set (extractKeywords t). length w > 3 \<and> w \<notin> set commonWords \<and> toLowerCase w = w)
   \<and> (''constructor'' \<notin> set (keyword_tokens t) \<longrightarrow>
        ranked (keyword_tokens t) (key_order (keyword_tokens t)) (extractKeywords t))
   \<and> (''constructor'' \<notin> set (keyword_tokens t) \<and> \<not> list_ex is_array_index (keyword_tokens t) \<longrightarrow>
        ranked (keyword_tokens t) (keyword_tokens t) (extractKeywords t))"
proof -
  have 1: "length (extractKeywords t) \<le> 50"
    by (simp add: extractKeywords_def Let_def js_slice_to_def)
  have 2: "\<forall>w \<in> set (extractKeywords t). length w > 3 \<and> w \<notin> set commonWords \<and> toLowerCase w = w"
    using extractKeywords_subset [of t] keyword_tokens_props [of _ t] by blast
  have 3: "ranked (keyword_tokens t) (keyword_tokens t) (extractKeywords t)"
    if c: "''constructor'' \<notin> set (keyword_tokens t)"
      and i: "\<not> list_ex is_array_index (keyword_tokens t)"
  proof -
    let ?ws = "filter (\<lambda>w. w \<noteq> ''__proto__'') (keyword_tokens t)"
    have r: "ranked (keyword_tokens t) (first_seen ?ws) (extractKeywords t)"
      using extractKeywords_sorted [OF c] key_order_plain [OF i] by simp
    have "index_of (keyword_tokens t) a < index_of (keyword_tokens t) b"
      if "a \<in> set (extractKeywords t)" "b \<in> set (extractKeywords t)"
        and "index_of (first_seen ?ws) a < index_of (first_seen ?ws) b" for a b
    proof -
      from that(1,2) extractKeywords_own [of t]
      have ab: "a \<noteq> ''__proto__''" "b \<noteq> ''__proto__''"
        by auto
      from that(3) have "index_of ?ws a < index_of ?ws b"
        by (simp only: index_of_first_seen)
      then show ?thesis
        using index_of_filter [of "\<lambda>w. w \<noteq> ''__proto__''" a b "keyword_tokens t"] ab
        by simp
    qed
    with r show ?thesis
      unfolding ranked_def by (rule_tac sorted_wrt_mono_rel) auto
  qed
  from 1 2 3 extractKeywords_sorted show ?thesis
    by blast
qed


theorem extractKeywords_ranked_witness:
  "extractKeywords ''Payment terms: payment due in 2024, notice within 30 days; PAYMENT late.''
     = [''payment'', ''2024'', ''terms'', ''notice'', ''within'', ''days'', ''late'']
   \<and> ranked (keyword_tokens ''Payment terms: payment due in 2024, notice within 30 days; PAYMENT late.'')
       (key_order (keyword_tokens ''Payment terms: payment due in 2024, notice within 30 days; PAYMENT late.''))
       [''payment'', ''2024'', ''terms'', ''notice'', ''within'', ''days'', ''late'']
   \<and> extractKeywords ''Late payment, late notice.'' = [''late'', ''payment'', ''notice'']
   \<and> ranked (keyword_tokens ''Late payment, late notice.'') (keyword_tokens ''Late payment, late notice.'')
       [''late'', ''payment'', ''notice'']"
proof -
  let ?a = "''Payment terms: payment due in 2024, notice within 30 days; PAYMENT late.''"
  let ?b = "''Late payment, late notice.''"
  have a: "extractKeywords ?a = [''payment'', ''2024'', ''terms'', ''notice'', ''within'', ''days'', ''late'']"
    by code_simp
  have b: "extractKeywords ?b = [''late'', ''payment'', ''notice'']"
    by code_simp
  have ca: "''constructor'' \<notin> set (keyword_tokens ?a)"
    by code_simp
  have cb: "''constructor'' \<notin> set (keyword_tokens ?b) \<and> \<not> list_ex is_array_index (keyword_tokens ?b)"
    by code_simp
  show ?thesis
    using extractKeywords_ranked [of ?a] extractKeywords_ranked [of ?b] ca cb
    unfolding a b by simp
qed

theorem first_occurrence_counterexample:
  "keyword_tokens ''beta 2024'' = [''beta'', ''2024'']
   \<and> extractKeywords ''beta 2024'' = [''2024'', ''beta'']
   \<and> \<not> ranked (keyword_tokens ''beta 2024'') (keyword_tokens ''beta 2024'')
         (extractKeywords ''beta 2024'')"
  by code_simp

end
